theory Spec2Isabelle
  imports Complex_Main "HOL-Library.Monad_Syntax"
begin

section \<open>The arithmetic of the C++ types\<close>

subsection \<open>32-bit integers\<close>

text \<open>
  A C++ \<open>int\<close> is modelled as an \<open>int\<close> together with the range check of the
  32-bit type: an operation whose mathematical result leaves the range (signed overflow),
  a division by zero and a shift by a negative or too large amount have no defined result
  in C++, and are the value \<open>None\<close> here. An \<open>unsigned\<close> value is an \<open>int\<close> in
  \<open>[0, 2^32)\<close>; unsigned arithmetic wraps around, written out as \<open>mod 2 ^ 32\<close>.
\<close>

definition INT_MAX :: int where
  "INT_MAX = 2147483647"

definition INT_MIN :: int where
  "INT_MIN = - 2147483648"

definition c_int :: "int \<Rightarrow> int option" where
  "c_int v = (if INT_MIN \<le> v \<and> v \<le> INT_MAX then Some v else None)"

text \<open>\<open>a / b\<close> and \<open>a % b\<close> on \<open>int\<close>: the quotient is truncated towards zero.\<close>

definition c_div :: "int \<Rightarrow> int \<Rightarrow> int option" where
  "c_div a b = (if b = 0 then None else c_int (sgn a * sgn b * (\<bar>a\<bar> div \<bar>b\<bar>)))"

definition c_mod :: "int \<Rightarrow> int \<Rightarrow> int option" where
  "c_mod a b = do { q \<leftarrow> c_div a b; Some (a - q * b) }"

text \<open>\<open>0x1 << n\<close> on \<open>int\<close>.\<close>

definition shl1 :: "int \<Rightarrow> int option" where
  "shl1 n = (if 0 \<le> n \<and> n < 31 then Some (2 ^ nat n) else None)"

text \<open>The conversion of an \<open>int\<close> to \<open>unsigned\<close> (and the wrap-around of an unsigned result).\<close>

definition to_unsigned :: "int \<Rightarrow> int" where
  "to_unsigned v = v mod 2 ^ 32"

subsection \<open>Binary floating point\<close>

text \<open>
  \<open>float\<close> and \<open>double\<close> are the IEEE 754 formats binary32 and binary64. A finite value
  is the rational number it denotes; every operation computes the exact rational result
  and rounds it to the nearest value of the format, ties to even (the default rounding
  mode). Results too large for the format are infinite, results below the smallest normal
  number are rounded on the fixed grid of the subnormal numbers. The sign of a zero is
  not represented: no operation of the program below divides by a zero that was produced
  with a negative sign.
\<close>

datatype fp = Finite rat | PlusInf | MinusInf | NaN

record format =
  prec :: nat
  emin :: int
  emax :: int

definition binary32 :: format where
  "binary32 = \<lparr>prec = 24, emin = - 126, emax = 127\<rparr>"

definition binary64 :: format where
  "binary64 = \<lparr>prec = 53, emin = - 1022, emax = 1023\<rparr>"

definition pow2 :: "int \<Rightarrow> rat" where
  "pow2 e = (if 0 \<le> e then 2 ^ nat e else 1 / 2 ^ nat (- e))"

fun bit_length :: "nat \<Rightarrow> nat" where
  "bit_length n = (if n = 0 then 0 else Suc (bit_length (n div 2)))"

declare bit_length.simps [simp del]

text \<open>\<open>ilog2 x\<close> is the exponent \<open>e\<close> with \<open>2^e \<le> x < 2^(e+1)\<close>, for \<open>0 < x\<close>.\<close>

definition ilog2 :: "rat \<Rightarrow> int" where
  "ilog2 x =
     (if 1 \<le> x then int (bit_length (nat \<lfloor>x\<rfloor>)) - 1
      else (let k = int (bit_length (nat \<lfloor>1 / x\<rfloor>))
            in if x * pow2 (k - 1) = 1 then 1 - k else - k))"

definition round_half_even :: "rat \<Rightarrow> int" where
  "round_half_even x =
     (let f = \<lfloor>x\<rfloor>; d = x - of_int f
      in if d < 1 / 2 then f else if 1 / 2 < d then f + 1
         else if even f then f else f + 1)"

text \<open>The exponent of the last place of the values of the format around \<open>x\<close>.\<close>

definition quantum :: "format \<Rightarrow> rat \<Rightarrow> int" where
  "quantum f x = max (ilog2 \<bar>x\<bar>) (emin f) - (int (prec f) - 1)"

definition fround :: "format \<Rightarrow> rat \<Rightarrow> fp" where
  "fround f x =
     (if x = 0 then Finite 0
      else (let q = quantum f x;
                y = of_int (round_half_even (x / pow2 q)) * pow2 q
            in if pow2 (emax f + 1) \<le> \<bar>y\<bar>
               then (if 0 < y then PlusInf else MinusInf)
               else Finite y))"

definition of_int_fp :: "format \<Rightarrow> int \<Rightarrow> fp" where
  "of_int_fp f i = fround f (of_int i)"

fun fp_sign :: "fp \<Rightarrow> int" where
  "fp_sign (Finite x) = (if 0 < x then 1 else if x < 0 then - 1 else 0)"
| "fp_sign PlusInf = 1"
| "fp_sign MinusInf = - 1"
| "fp_sign NaN = 0"

definition signed_inf :: "int \<Rightarrow> fp" where
  "signed_inf s = (if 0 < s then PlusInf else if s < 0 then MinusInf else NaN)"

fun fmul :: "format \<Rightarrow> fp \<Rightarrow> fp \<Rightarrow> fp" where
  "fmul f (Finite a) (Finite b) = fround f (a * b)"
| "fmul f NaN b = NaN"
| "fmul f a NaN = NaN"
| "fmul f a b = signed_inf (fp_sign a * fp_sign b)"

fun fdiv :: "format \<Rightarrow> fp \<Rightarrow> fp \<Rightarrow> fp" where
  "fdiv f (Finite a) (Finite b) =
     (if b = 0 then signed_inf (fp_sign (Finite a)) else fround f (a / b))"
| "fdiv f NaN b = NaN"
| "fdiv f a NaN = NaN"
| "fdiv f (Finite a) b = Finite 0"
| "fdiv f a (Finite b) = signed_inf (fp_sign a * (if b < 0 then - 1 else 1))"
| "fdiv f a b = NaN"

text \<open>The comparisons \<open><\<close> and \<open><=\<close>: every comparison with a NaN is false.\<close>

fun fless :: "fp \<Rightarrow> fp \<Rightarrow> bool" where
  "fless (Finite a) (Finite b) = (a < b)"
| "fless NaN b = False"
| "fless a NaN = False"
| "fless MinusInf b = (b \<noteq> MinusInf)"
| "fless a PlusInf = (a \<noteq> PlusInf)"
| "fless a b = False"

fun fle :: "fp \<Rightarrow> fp \<Rightarrow> bool" where
  "fle (Finite a) (Finite b) = (a \<le> b)"
| "fle NaN b = False"
| "fle a NaN = False"
| "fle MinusInf b = True"
| "fle a PlusInf = True"
| "fle a b = False"

text \<open>\<open>round\<close> of \<open><cmath>\<close>: to the nearest integer, halfway cases away from zero.\<close>

fun c_round :: "fp \<Rightarrow> fp" where
  "c_round (Finite x) =
     Finite (of_int (if 0 \<le> x then \<lfloor>x + 1 / 2\<rfloor> else - \<lfloor>- x + 1 / 2\<rfloor>))"
| "c_round a = a"

text \<open>
  The conversion of a floating value to \<open>int\<close> discards the fraction (truncation towards
  zero); it has no defined result on NaN, on an infinity and outside the range of \<open>int\<close>.
\<close>

fun to_int :: "fp \<Rightarrow> int option" where
  "to_int (Finite x) = c_int (if 0 \<le> x then \<lfloor>x\<rfloor> else - \<lfloor>- x\<rfloor>)"
| "to_int a = None"

section \<open>Strings and the functions of the Qt library\<close>

text \<open>\<open>QString::split(sep)\<close>, which keeps empty parts: the result is never empty.\<close>

fun split :: "char \<Rightarrow> string \<Rightarrow> string list" where
  "split sep [] = [[]]"
| "split sep (c # cs) =
     (if c = sep then [] # split sep cs
      else (c # hd (split sep cs)) # tl (split sep cs))"

text \<open>\<open>QString::replace(",", ".")\<close>.\<close>

definition replace_comma :: "string \<Rightarrow> string" where
  "replace_comma t = map (\<lambda>c. if c = CHR '','' then CHR ''.'' else c) t"

text \<open>\<open>QString("%1").arg(n)\<close> for an \<open>int\<close>: the decimal digits, after a minus sign if negative.\<close>

fun digits :: "nat \<Rightarrow> string" where
  "digits n =
     (if n < 10 then [''0123456789'' ! n]
      else digits (n div 10) @ [''0123456789'' ! (n mod 10)])"

declare digits.simps [simp del]

definition arg_int :: "int \<Rightarrow> string" where
  "arg_int i = (if i < 0 then CHR ''-'' # digits (nat (- i)) else digits (nat i))"

text \<open>
  The conversions of Qt are not part of the program. The panel is given them as
  parameters: \<open>toDouble\<close> and \<open>toInt\<close> are \<open>QString::toDouble\<close> and \<open>QString::toInt\<close>
  (\<open>None\<close> when the conversion fails, which Qt reports through its \<open>ok\<close> flag while it
  returns 0), and \<open>toString_f3\<close> is \<open>QLocale::system().toString(x, 'f', 3)\<close>. Every
  theorem below that does not name a particular library holds for all of them.
\<close>

record qt =
  toDouble :: "string \<Rightarrow> fp option"
  toInt :: "string \<Rightarrow> int option"
  toString_f3 :: "fp \<Rightarrow> string"

definition toDouble_ok :: "qt \<Rightarrow> string \<Rightarrow> bool \<times> fp" where
  "toDouble_ok lib t = (case toDouble lib t of None \<Rightarrow> (False, Finite 0) | Some v \<Rightarrow> (True, v))"

definition toInt_ok :: "qt \<Rightarrow> string \<Rightarrow> bool \<times> int" where
  "toInt_ok lib t = (case toInt lib t of None \<Rightarrow> (False, 0) | Some v \<Rightarrow> (True, v))"

subsection \<open>A library for plain decimal notation\<close>

text \<open>
  For the scenarios that enter a concrete text, \<open>decimal_qt\<close> is the behaviour of the
  three conversions on plain decimal notation in the C locale: an optional sign, digits,
  and for \<open>toDouble\<close> an optional fraction after a point; the value is rounded to
  binary64 once. Exponents, white space, \<open>inf\<close> and \<open>nan\<close>, which Qt also reads, are not
  covered (they are \<open>None\<close> here), and no scenario below enters them.
\<close>

definition digit_val :: "char \<Rightarrow> nat option" where
  "digit_val =
     map_of [(CHR ''0'', 0), (CHR ''1'', 1), (CHR ''2'', 2), (CHR ''3'', 3), (CHR ''4'', 4),
             (CHR ''5'', 5), (CHR ''6'', 6), (CHR ''7'', 7), (CHR ''8'', 8), (CHR ''9'', 9)]"

fun parse_digits :: "nat \<Rightarrow> string \<Rightarrow> nat option" where
  "parse_digits acc [] = Some acc"
| "parse_digits acc (c # cs) =
     (case digit_val c of None \<Rightarrow> None | Some d \<Rightarrow> parse_digits (10 * acc + d) cs)"

definition parse_nat :: "string \<Rightarrow> nat option" where
  "parse_nat t = (if t = [] then None else parse_digits 0 t)"

text \<open>The sign of a text, and the text after it.\<close>

fun strip_sign :: "string \<Rightarrow> int \<times> string" where
  "strip_sign [] = (1, [])"
| "strip_sign (c # cs) =
     (if c = CHR ''-'' then (- 1, cs) else if c = CHR ''+'' then (1, cs) else (1, c # cs))"

definition decimal_toInt :: "string \<Rightarrow> int option" where
  "decimal_toInt t =
     (case parse_nat (snd (strip_sign t)) of
        None \<Rightarrow> None
      | Some n \<Rightarrow> c_int (fst (strip_sign t) * int n))"

definition decimal_toDouble :: "string \<Rightarrow> fp option" where
  "decimal_toDouble t =
     (let body = snd (strip_sign t);
          ip = takeWhile (\<lambda>c. c \<noteq> CHR ''.'') body;
          fr = drop (Suc (length ip)) body
      in if ip = [] \<and> fr = [] then None
         else (case (parse_digits 0 ip, parse_digits 0 fr) of
                 (Some i, Some k) \<Rightarrow>
                   Some (fround binary64
                     (of_int (fst (strip_sign t)) * (of_nat i + of_nat k / 10 ^ length fr)))
               | _ \<Rightarrow> None))"

text \<open>
  Three digits after the point, the nearest such decimal to the exact value, halfway
  cases away from zero.
\<close>

definition pad3 :: "string \<Rightarrow> string" where
  "pad3 t = replicate (3 - length t) CHR ''0'' @ t"

fun decimal_f3 :: "fp \<Rightarrow> string" where
  "decimal_f3 (Finite x) =
     (let m = nat \<lfloor>\<bar>x\<bar> * 1000 + 1 / 2\<rfloor>
      in (if x < 0 \<and> 0 < m then [CHR ''-''] else [])
         @ digits (m div 1000) @ [CHR ''.''] @ pad3 (digits (m mod 1000)))"
| "decimal_f3 PlusInf = ''inf''"
| "decimal_f3 MinusInf = ''-inf''"
| "decimal_f3 NaN = ''nan''"

definition decimal_qt :: qt where
  "decimal_qt = \<lparr>toDouble = decimal_toDouble, toInt = decimal_toInt, toString_f3 = decimal_f3\<rparr>"

section \<open>The grid of the pattern editors\<close>

text \<open>
  Modelled from the spec: the macro \<open>MAX_NOTES\<close> is defined in a header that is not among
  the sources. The specification fixes the number of ticks of a whole note at 192, and
  \<open>denominatorWarningClicked\<close> notes that its list of note values is valid if and only if
  \<open>MAX_NOTES = 192\<close>.
\<close>

definition MAX_NOTES :: int where
  "MAX_NOTES = 192"

text \<open>
  The grid members of a \<open>PatternEditor\<close>: \<open>uint m_nResolution\<close> (a value in \<open>[0, 2^32)\<close>),
  \<open>int m_nTupletNumerator\<close> and \<open>int m_nTupletDenominator\<close>.
\<close>

record pattern_editor =
  m_nResolution :: int
  m_nTupletNumerator :: int
  m_nTupletDenominator :: int

text \<open>
  \<open>granularity()\<close>: \<open>(float) MAX_NOTES * m_nTupletDenominator / (m_nTupletNumerator *
  m_nResolution)\<close>. The left operand is a \<open>float\<close> product; the divisor is the product of
  an \<open>int\<close> and an \<open>unsigned\<close>, so it is computed in \<open>unsigned\<close> (modulo \<open>2^32\<close>) and then
  converted to \<open>float\<close>.
\<close>

definition granularity_of :: "int \<Rightarrow> int \<Rightarrow> int \<Rightarrow> fp" where
  "granularity_of nResolution nTupletNumerator nTupletDenominator =
     fdiv binary32
       (fmul binary32 (of_int_fp binary32 MAX_NOTES) (of_int_fp binary32 nTupletDenominator))
       (of_int_fp binary32 (to_unsigned (to_unsigned nTupletNumerator * nResolution)))"

definition granularity :: "pattern_editor \<Rightarrow> fp" where
  "granularity e =
     granularity_of (m_nResolution e) (m_nTupletNumerator e) (m_nTupletDenominator e)"

text \<open>
  Modelled from the spec: \<open>PatternEditor::setResolution\<close> and
  \<open>PatternEditor::setTupletRatio\<close> are declared in the header of the class, their bodies
  are not among the sources. The header says that the first sets the grid resolution
  (its parameter is a \<open>uint\<close>), the specification that the second replaces numerator and
  denominator together.
\<close>

definition setResolution :: "int \<Rightarrow> pattern_editor \<Rightarrow> pattern_editor" where
  "setResolution res e = e\<lparr>m_nResolution := to_unsigned res\<rparr>"

definition setTupletRatio :: "int \<Rightarrow> int \<Rightarrow> pattern_editor \<Rightarrow> pattern_editor" where
  "setTupletRatio nTupletNumerator nTupletDenominator e =
     e\<lparr>m_nTupletNumerator := nTupletNumerator, m_nTupletDenominator := nTupletDenominator\<rparr>"

section \<open>The pattern editor panel\<close>

text \<open>
  The pattern (its length in ticks and its denominator, set by \<open>set_length\<close> and
  \<open>set_denominator\<close>) and the preferences (grid resolution and tuplet ratio, set by
  \<open>setPatternEditorGridResolution\<close> and \<open>setPatternEditorGridTupletRatio\<close>) are plain stores.
\<close>

record pattern =
  pattern_length :: int
  pattern_denominator :: int

record preferences =
  patternEditorGridResolution :: int
  patternEditorGridTupletNumerator :: int
  patternEditorGridTupletDenominator :: int

text \<open>
  The members of \<open>PatternEditorPanel\<close> that the functions below read or write: the
  selected pattern, the panel's own copy of the grid, the seven editors, the
  preferences, the texts of the two displays, whether the denominator warning is shown,
  and the cursor.
\<close>

record panel =
  m_pPattern :: pattern
  panel_nResolution :: int
  panel_nTupletNumerator :: int
  panel_nTupletDenominator :: int
  m_pDrumPatternEditor :: pattern_editor
  m_pPianoRollEditor :: pattern_editor
  m_pNoteVelocityEditor :: pattern_editor
  m_pNoteLeadLagEditor :: pattern_editor
  m_pNoteNoteKeyEditor :: pattern_editor
  m_pNoteProbabilityEditor :: pattern_editor
  m_pNotePanEditor :: pattern_editor
  pPref :: preferences
  m_pTupletLCD :: string
  pattern_size_LCD :: string
  m_pDenominatorWarning :: bool
  m_nCursorIndexPosition :: int
  m_nCursorIncrement :: int

text \<open>The message boxes a function opens, in the order in which it opens them.\<close>

datatype message =
    NotPossibleWhenPlaying
  | DenominatorValueRejected
  | PatternSizeTooBig
  | LengthNotSupported int
  | PatternSizeApproximated
  | TupletNumeratorTooBig
  | TextRejected

text \<open>
  The boxes that end a function without a change; the other two are shown while the
  input is accepted.
\<close>

fun is_rejection :: "message \<Rightarrow> bool" where
  "is_rejection (LengthNotSupported d) = False"
| "is_rejection PatternSizeApproximated = False"
| "is_rejection m = True"

definition setResolutionToAllEditors :: "int \<Rightarrow> panel \<Rightarrow> panel" where
  "setResolutionToAllEditors nResolution s =
     s\<lparr>panel_nResolution := nResolution,
       m_pDrumPatternEditor := setResolution nResolution (m_pDrumPatternEditor s),
       m_pPianoRollEditor := setResolution nResolution (m_pPianoRollEditor s),
       m_pNoteVelocityEditor := setResolution nResolution (m_pNoteVelocityEditor s),
       m_pNoteLeadLagEditor := setResolution nResolution (m_pNoteLeadLagEditor s),
       m_pNoteNoteKeyEditor := setResolution nResolution (m_pNoteNoteKeyEditor s),
       m_pNoteProbabilityEditor := setResolution nResolution (m_pNoteProbabilityEditor s),
       m_pNotePanEditor := setResolution nResolution (m_pNotePanEditor s)\<rparr>"

definition setTupletRatioToAllEditors :: "int \<Rightarrow> int \<Rightarrow> panel \<Rightarrow> panel" where
  "setTupletRatioToAllEditors nTupletNum nTupletDen s =
     s\<lparr>panel_nTupletNumerator := nTupletNum,
       panel_nTupletDenominator := nTupletDen,
       m_pDrumPatternEditor := setTupletRatio nTupletNum nTupletDen (m_pDrumPatternEditor s),
       m_pPianoRollEditor := setTupletRatio nTupletNum nTupletDen (m_pPianoRollEditor s),
       m_pNoteVelocityEditor := setTupletRatio nTupletNum nTupletDen (m_pNoteVelocityEditor s),
       m_pNoteLeadLagEditor := setTupletRatio nTupletNum nTupletDen (m_pNoteLeadLagEditor s),
       m_pNoteNoteKeyEditor := setTupletRatio nTupletNum nTupletDen (m_pNoteNoteKeyEditor s),
       m_pNoteProbabilityEditor :=
         setTupletRatio nTupletNum nTupletDen (m_pNoteProbabilityEditor s),
       m_pNotePanEditor := setTupletRatio nTupletNum nTupletDen (m_pNotePanEditor s)\<rparr>"

definition setPatternEditorGridTupletRatio :: "int \<Rightarrow> int \<Rightarrow> panel \<Rightarrow> panel" where
  "setPatternEditorGridTupletRatio nTupletNumerator nTupletDenominator s =
     s\<lparr>pPref := (pPref s)\<lparr>patternEditorGridTupletNumerator := nTupletNumerator,
                           patternEditorGridTupletDenominator := nTupletDenominator\<rparr>\<rparr>"

text \<open>\<open>QString("%1:%2").arg(a).arg(b)\<close>.\<close>

definition ratio_text :: "int \<Rightarrow> int \<Rightarrow> string" where
  "ratio_text a b = arg_int a @ [CHR '':''] @ arg_int b"

text \<open>The seven editors of the panel, in the order in which the panel updates them.\<close>

definition editors :: "panel \<Rightarrow> pattern_editor list" where
  "editors s =
     [m_pDrumPatternEditor s, m_pPianoRollEditor s, m_pNoteVelocityEditor s,
      m_pNoteLeadLagEditor s, m_pNoteNoteKeyEditor s, m_pNoteProbabilityEditor s,
      m_pNotePanEditor s]"

subsection \<open>The grid resolution\<close>

text \<open>
  The end of the constructor restores the display of the tuplet from the preferences.
\<close>

definition restoredTupletLCD :: "int \<Rightarrow> int \<Rightarrow> string" where
  "restoredTupletLCD nTupletNumerator nTupletDenominator =
     (if nTupletNumerator = 4 \<and> nTupletDenominator = 4 then ''off''
      else ratio_text nTupletNumerator nTupletDenominator)"

definition gridResolutionChanged :: "int \<Rightarrow> panel \<Rightarrow> panel option" where
  "gridResolutionChanged nSelected s = do {
     (nResolution, s1) \<leftarrow>
       (if nSelected = 11 then
          Some (MAX_NOTES,
            setTupletRatioToAllEditors 4 4
              ((setPatternEditorGridTupletRatio 4 4 s)\<lparr>m_pTupletLCD := ratio_text 4 4\<rparr>))
        else if nSelected > 4 then do {
          r \<leftarrow> shl1 (nSelected - 4);
          Some (r,
            setTupletRatioToAllEditors 3 2
              ((setPatternEditorGridTupletRatio 3 2 s)\<lparr>m_pTupletLCD := ratio_text 3 2\<rparr>))
        }
        else do {
          r \<leftarrow> shl1 (nSelected + 2);
          Some (r, s)
        });
     let s2 = setResolutionToAllEditors nResolution s1;
     let nTupletNumerator = patternEditorGridTupletNumerator (pPref s2);
     d \<leftarrow> c_int (nResolution * 3);
     inc \<leftarrow> c_div ((if nTupletNumerator = 3 then 4 else 3) * MAX_NOTES) d;
     Some (s2\<lparr>m_nCursorIncrement := inc,
             pPref := (pPref s2)\<lparr>patternEditorGridResolution := nResolution\<rparr>\<rparr>)
   }"

subsection \<open>The tuplet ratio\<close>

text \<open>
  The loop that computes the standard denominator of a numerator entered alone:
  \<open>while ((2 * nTupletDenominator) <= nTupletNumerator) nTupletDenominator *= 2;\<close>.
  It has no result when \<open>2 * nTupletDenominator\<close> overflows, or when it does not end.
\<close>

partial_function (option) standardDenominator :: "int \<Rightarrow> int \<Rightarrow> int option" where
  "standardDenominator nTupletNumerator nTupletDenominator =
     (case c_int (2 * nTupletDenominator) of
        None \<Rightarrow> None
      | Some twice \<Rightarrow>
          if twice \<le> nTupletNumerator
          then standardDenominator nTupletNumerator (nTupletDenominator * 2)
          else Some nTupletDenominator)"

declare standardDenominator.simps [code]

text \<open>The part of \<open>tupletLCDClicked\<close> below the two ways of finding the denominator.\<close>

definition tupletEntered :: "bool \<Rightarrow> int \<Rightarrow> int \<Rightarrow> panel \<Rightarrow> message list \<times> panel" where
  "tupletEntered bOk nTupletNumerator nTupletDenominator s =
     (if bOk \<and> nTupletNumerator > 0 then
        (if nTupletNumerator > 20 then ([TupletNumeratorTooBig], s)
         else ([],
           (setTupletRatioToAllEditors nTupletNumerator nTupletDenominator
              (setPatternEditorGridTupletRatio nTupletNumerator nTupletDenominator s))
            \<lparr>m_pTupletLCD := ratio_text nTupletNumerator nTupletDenominator\<rparr>))
      else ([TextRejected], s))"

text \<open>
  \<open>tupletLCDClicked\<close>: \<open>bIsOkPressed\<close> and \<open>qtmp\<close> are what the input dialog returns.
\<close>

definition tupletLCDClicked ::
    "qt \<Rightarrow> bool \<Rightarrow> string \<Rightarrow> panel \<Rightarrow> (message list \<times> panel) option" where
  "tupletLCDClicked lib bIsOkPressed qtmp s =
     (if bIsOkPressed then
        (if m_pTupletLCD s = qtmp then Some ([], s)
         else
           (let parts = split CHR '':'' qtmp in
            if length parts = 1 \<or> length parts = 2 then
              (let (bOk, nTupletNumerator) = toInt_ok lib (parts ! 0) in
               if bOk \<and> length parts = 2 then
                 (let (bOk, nTupletDenominator) = toInt_ok lib (parts ! 1) in
                  if bOk \<and> (nTupletDenominator \<le> 0 \<or> nTupletDenominator > MAX_NOTES)
                  then Some ([DenominatorValueRejected], s)
                  else Some (tupletEntered bOk nTupletNumerator nTupletDenominator s))
               else do {
                 nTupletDenominator \<leftarrow> standardDenominator nTupletNumerator 1;
                 Some (tupletEntered bOk nTupletNumerator nTupletDenominator s)
               })
            else Some ([TextRejected], s)))
      else Some ([], s))"

subsection \<open>The pattern size\<close>

text \<open>
  \<open>updatePatternSizeLCD\<close>, which \<open>patternLengthChanged\<close> calls: the text of the size
  display and the denominator warning.
\<close>

definition updatePatternSizeLCD :: "qt \<Rightarrow> panel \<Rightarrow> panel option" where
  "updatePatternSizeLCD lib s = do {
     let nPatternSize = pattern_length (m_pPattern s);
     let nDen = pattern_denominator (m_pPattern s);
     product \<leftarrow> c_int (nPatternSize * nDen);
     remainder \<leftarrow> c_mod product MAX_NOTES;
     qtmp \<leftarrow>
       (if remainder = 0 then do {
          numerator \<leftarrow> c_div product MAX_NOTES;
          Some (arg_int numerator @ [CHR ''/''] @ arg_int nDen)
        }
        else
          Some (toString_f3 lib
                  (fdiv binary32 (of_int_fp binary32 product) (of_int_fp binary32 MAX_NOTES))
                @ [CHR ''/''] @ arg_int nDen));
     warn \<leftarrow> c_mod MAX_NOTES nDen;
     Some (s\<lparr>pattern_size_LCD := qtmp, m_pDenominatorWarning := (warn \<noteq> 0)\<rparr>)
   }"

definition patternLengthChanged :: "qt \<Rightarrow> panel \<Rightarrow> panel option" where
  "patternLengthChanged lib s = updatePatternSizeLCD lib s"

text \<open>
  The part of \<open>patternSizeLCDClicked\<close> below the two ways of finding the denominator.
\<close>

definition patternSizeEntered ::
    "qt \<Rightarrow> bool \<Rightarrow> fp \<Rightarrow> int \<Rightarrow> panel \<Rightarrow> (message list \<times> panel) option" where
  "patternSizeEntered lib bOk fNumerator nDenominator s =
     (if bOk \<and> fless (Finite 0) fNumerator then
        (if fless (Finite 4) (fdiv binary64 fNumerator (of_int_fp binary64 nDenominator))
         then Some ([PatternSizeTooBig], s)
         else do {
           remainder \<leftarrow> c_mod MAX_NOTES nDenominator;
           let advisory = (if remainder \<noteq> 0 then [LengthNotSupported nDenominator] else []);
           nLength \<leftarrow>
             to_int (c_round
               (fmul binary64
                  (fdiv binary64 (of_int_fp binary64 MAX_NOTES)
                     (of_int_fp binary64 nDenominator))
                  fNumerator));
           s' \<leftarrow> patternLengthChanged lib
                  (s\<lparr>m_pPattern := (m_pPattern s)\<lparr>pattern_length := nLength,
                                                   pattern_denominator := nDenominator\<rparr>\<rparr>);
           displayedNum_x1000 \<leftarrow>
             to_int (c_round
               (fmul binary64
                  (fmul binary64
                     (fdiv binary64 (of_int_fp binary64 nLength) (of_int_fp binary64 MAX_NOTES))
                     (of_int_fp binary64 nDenominator))
                  (of_int_fp binary64 1000)));
           roundInputNum_x1000 \<leftarrow>
             to_int (c_round (fmul binary64 fNumerator (of_int_fp binary64 1000)));
           Some (advisory @
                 (if displayedNum_x1000 \<noteq> roundInputNum_x1000 then [PatternSizeApproximated]
                  else []), s')
         })
      else Some ([TextRejected], s))"

text \<open>
  \<open>patternSizeLCDClicked\<close>: \<open>ready\<close> says that the engine is in \<open>STATE_READY\<close>,
  \<open>bIsOkPressed\<close> and \<open>qtmp\<close> are what the input dialog returns.
\<close>

definition patternSizeLCDClicked ::
    "qt \<Rightarrow> bool \<Rightarrow> bool \<Rightarrow> string \<Rightarrow> panel \<Rightarrow> (message list \<times> panel) option" where
  "patternSizeLCDClicked lib ready bIsOkPressed qtmp s =
     (if ready then
        (if bIsOkPressed then
           (if pattern_size_LCD s = qtmp then Some ([], s)
            else
              (let parts = split CHR ''/'' qtmp;
                   parts0 = replace_comma (parts ! 0) in
               if length parts = 1 \<or> length parts = 2 then
                 (let (bOk, fNumerator) = toDouble_ok lib parts0 in
                  if bOk \<and> length parts = 2 then
                    (let (bOk, nDenominator) = toInt_ok lib (parts ! 1) in
                     if bOk \<and> (nDenominator \<le> 0 \<or> nDenominator > MAX_NOTES)
                     then Some ([DenominatorValueRejected], s)
                     else patternSizeEntered lib bOk fNumerator nDenominator s)
                  else patternSizeEntered lib bOk fNumerator
                         (pattern_denominator (m_pPattern s)) s)
               else Some ([TextRejected], s)))
         else Some ([], s))
      else Some ([NotPossibleWhenPlaying], s))"

subsection \<open>The cursor\<close>

text \<open>
  Modelled from the spec: the panel's own \<open>granularity()\<close> is declared in its header,
  which is not among the sources. The specification gives one formula for the
  granularity of a grid, the one of \<open>PatternEditor::granularity\<close>; the panel applies it
  to its own copy of the grid.
\<close>

definition panel_granularity :: "panel \<Rightarrow> fp" where
  "panel_granularity s =
     granularity_of (panel_nResolution s) (panel_nTupletNumerator s)
       (panel_nTupletDenominator s)"

text \<open>\<open>getCursorPosition\<close>: \<open>round(m_nCursorIndexPosition * granularity())\<close>.\<close>

definition getCursorPosition :: "panel \<Rightarrow> int option" where
  "getCursorPosition s =
     to_int (c_round
       (fmul binary32 (of_int_fp binary32 (m_nCursorIndexPosition s)) (panel_granularity s)))"

text \<open>
  In \<open>setCursorIndexPosition\<close> the product and the quotient are \<open>float\<close> operations;
  the rounded product is compared with the length as a \<open>double\<close>.
\<close>

definition setCursorIndexPosition :: "int \<Rightarrow> panel \<Rightarrow> panel option" where
  "setCursorIndexPosition nGridIndex s =
     (if nGridIndex < 0 then Some (s\<lparr>m_nCursorIndexPosition := 0\<rparr>)
      else if fle (of_int_fp binary64 (pattern_length (m_pPattern s)))
                  (c_round (fmul binary32 (of_int_fp binary32 nGridIndex) (panel_granularity s)))
      then do {
        i \<leftarrow> to_int (fdiv binary32 (of_int_fp binary32 (pattern_length (m_pPattern s)))
                        (panel_granularity s));
        Some (s\<lparr>m_nCursorIndexPosition := i\<rparr>)
      }
      else Some (s\<lparr>m_nCursorIndexPosition := nGridIndex\<rparr>))"

definition moveCursorLeft :: "panel \<Rightarrow> panel option" where
  "moveCursorLeft s =
     (if m_nCursorIndexPosition s > 0 then do {
        i \<leftarrow> c_int (m_nCursorIndexPosition s - 1);
        Some (s\<lparr>m_nCursorIndexPosition := i\<rparr>)
      }
      else Some s)"

text \<open>
  In \<open>moveCursorRight\<close> the argument of \<open>round\<close> is the \<open>int\<close> \<open>m_nCursorIndexPosition + 1\<close>;
  its result, a \<open>double\<close>, is multiplied by the granularity and the product is compared
  with the length.
\<close>

definition moveCursorRight :: "panel \<Rightarrow> panel option" where
  "moveCursorRight s = do {
     next_index \<leftarrow> c_int (m_nCursorIndexPosition s + 1);
     if fless (fmul binary64 (c_round (of_int_fp binary64 next_index)) (panel_granularity s))
              (of_int_fp binary64 (pattern_length (m_pPattern s)))
     then Some (s\<lparr>m_nCursorIndexPosition := next_index\<rparr>)
     else Some s
   }"

text \<open>
  The tick position that a grid index implies, as \<open>setCursorIndexPosition\<close> computes it:
  \<open>round(nGridIndex * granularity())\<close>.
\<close>

definition implied_tick_position :: "int \<Rightarrow> panel \<Rightarrow> fp" where
  "implied_tick_position nGridIndex s =
     c_round (fmul binary32 (of_int_fp binary32 nGridIndex) (panel_granularity s))"

section \<open>Accepted and rejected expressions\<close>

text \<open>The panel after \<open>tupletLCDClicked\<close> has accepted the ratio \<open>n:d\<close>.\<close>

definition tupletAccepted :: "int \<Rightarrow> int \<Rightarrow> panel \<Rightarrow> panel" where
  "tupletAccepted n d s = (setTupletRatioToAllEditors n d
      (setPatternEditorGridTupletRatio n d s))\<lparr>m_pTupletLCD := ratio_text n d\<rparr>"

text \<open>
  The reasons for which a length expression is rejected: more than one separator, a
  numerator that is not a number or not positive, an entered denominator that is not a
  number or outside \<open>(0, 192]\<close>, or a quotient of numerator and denominator above 4
  (with the denominator of the pattern when none is entered).
\<close>

definition length_expression_rejected :: "qt \<Rightarrow> panel \<Rightarrow> string \<Rightarrow> bool" where
  "length_expression_rejected lib s qtmp =
     (let parts = split CHR ''/'' qtmp in
      2 < length parts
      \<or> (case toDouble lib (replace_comma (parts ! 0)) of
            None \<Rightarrow> True
          | Some v \<Rightarrow>
              (if fless (Finite 0) v then
                 (if length parts = 2 then
                    (case toInt lib (parts ! 1) of
                       None \<Rightarrow> True
                     | Some d \<Rightarrow> d \<le> 0 \<or> MAX_NOTES < d
                         \<or> fless (Finite 4) (fdiv binary64 v (of_int_fp binary64 d)))
                  else fless (Finite 4)
                         (fdiv binary64 v
                            (of_int_fp binary64 (pattern_denominator (m_pPattern s)))))
               else True)))"

text \<open>
  The reasons for which a tuplet expression is rejected: more than one separator, a
  numerator that is not a number, not positive or above 20, or an entered denominator
  that is not a number or outside \<open>(0, 192]\<close>.
\<close>

definition tuplet_expression_rejected :: "qt \<Rightarrow> string \<Rightarrow> bool" where
  "tuplet_expression_rejected lib qtmp =
     (let parts = split CHR '':'' qtmp in
      2 < length parts
      \<or> (case toInt lib (parts ! 0) of
            None \<Rightarrow> True
          | Some n \<Rightarrow> n \<le> 0 \<or> 20 < n
              \<or> (length parts = 2
                  \<and> (case toInt lib (parts ! 1) of
                         None \<Rightarrow> True
                       | Some d \<Rightarrow> d \<le> 0 \<or> MAX_NOTES < d))))"

text \<open>
  A numerator entered alone goes through the loop of the standard denominator before any
  check; the loop is defined below \<open>2^30\<close>.
\<close>

definition tuplet_loop_defined :: "qt \<Rightarrow> string \<Rightarrow> bool" where
  "tuplet_loop_defined lib qtmp =
     (let parts = split CHR '':'' qtmp in
      length parts = 2
      \<or> (case toInt lib (parts ! 0) of None \<Rightarrow> True | Some n \<Rightarrow> n < 2 ^ 30))"

text \<open>
  The length formula of the specification,
  \<open>round(TICKS_PER_WHOLE_NOTE / denominator * numerator)\<close>, in \<open>double\<close> arithmetic: the
  quotient is rounded, then the product, and \<open>round\<close> takes the nearest integer.
\<close>

definition canonical_length :: "fp \<Rightarrow> int \<Rightarrow> int option" where
  "canonical_length numerator denominator =
     to_int (c_round
       (fmul binary64
          (fdiv binary64 (of_int_fp binary64 MAX_NOTES) (of_int_fp binary64 denominator))
          numerator))"


text \<open>
  The numerator and the denominator that a length expression denotes: the text before
  the separator as a \<open>double\<close>, and the integer after it, or the denominator of the
  pattern when the text has no separator.
\<close>

definition length_expression :: "qt \<Rightarrow> panel \<Rightarrow> string \<Rightarrow> (fp \<times> int) option" where
  "length_expression lib s qtmp =
     (let parts = split CHR ''/'' qtmp in
      if length parts = 1 then
        map_option (\<lambda>v. (v, pattern_denominator (m_pPattern s)))
          (toDouble lib (replace_comma (parts ! 0)))
      else if length parts = 2 then
        (case toDouble lib (replace_comma (parts ! 0)) of
           None \<Rightarrow> None
         | Some v \<Rightarrow> map_option (\<lambda>d. (v, d)) (toInt lib (parts ! 1)))
      else None)"

text \<open>
  The text of the size display for a length and a denominator: the integer numerator
  when \<open>length * denominator\<close> is a multiple of 192, else the numerator as Qt prints it
  with three decimals.
\<close>

definition size_text :: "qt \<Rightarrow> int \<Rightarrow> int \<Rightarrow> string" where
  "size_text lib nPatternSize nDen =
     (if 192 dvd nPatternSize * nDen
      then arg_int (nPatternSize * nDen div 192) @ [CHR ''/''] @ arg_int nDen
      else toString_f3 lib
             (fdiv binary32 (of_int_fp binary32 (nPatternSize * nDen)) (Finite 192))
           @ [CHR ''/''] @ arg_int nDen)"

text \<open>The panel after a length of \<open>nLength\<close> ticks with the denominator \<open>nDenominator\<close> is stored.\<close>

definition sizeAccepted :: "qt \<Rightarrow> int \<Rightarrow> int \<Rightarrow> panel \<Rightarrow> panel" where
  "sizeAccepted lib nLength nDenominator s =
     s\<lparr>m_pPattern := (m_pPattern s)\<lparr>pattern_length := nLength,
                                     pattern_denominator := nDenominator\<rparr>,
       pattern_size_LCD := size_text lib nLength nDenominator,
       m_pDenominatorWarning := \<not> nDenominator dvd 192\<rparr>"

text \<open>A text has a decimal point that is followed by exactly three digits.\<close>

definition three_fraction_digits :: "string \<Rightarrow> bool" where
  "three_fraction_digits t =
     (let fr = drop 1 (dropWhile (\<lambda>c. c \<noteq> CHR ''.'') t)
      in length fr = 3 \<and> list_all (\<lambda>c. c \<in> set ''0123456789'') fr)"

section \<open>Example states\<close>

text \<open>
  A panel whose grid has the resolution 16 and the tuplet ratio 5:4 in the panel, in the
  seven editors and in the preferences; its pattern is one whole note long.
\<close>

definition example_editor :: pattern_editor where
  "example_editor = \<lparr>m_nResolution = 16, m_nTupletNumerator = 5, m_nTupletDenominator = 4\<rparr>"

definition example_panel :: panel where
  "example_panel =
     \<lparr>m_pPattern = \<lparr>pattern_length = 192, pattern_denominator = 4\<rparr>,
      panel_nResolution = 16, panel_nTupletNumerator = 5, panel_nTupletDenominator = 4,
      m_pDrumPatternEditor = example_editor, m_pPianoRollEditor = example_editor,
      m_pNoteVelocityEditor = example_editor, m_pNoteLeadLagEditor = example_editor,
      m_pNoteNoteKeyEditor = example_editor, m_pNoteProbabilityEditor = example_editor,
      m_pNotePanEditor = example_editor,
      pPref = \<lparr>patternEditorGridResolution = 16, patternEditorGridTupletNumerator = 5,
                patternEditorGridTupletDenominator = 4\<rparr>,
      m_pTupletLCD = ''5:4'', pattern_size_LCD = ''4/4'', m_pDenominatorWarning = False,
      m_nCursorIndexPosition = 0, m_nCursorIncrement = 12\<rparr>"

text \<open>
  The panel as it is after a start with the default preferences: the resolution 16, the
  tuplet ratio 4:4, which the constructor displays as "off".
\<close>

definition initial_panel :: panel where
  "initial_panel =
     \<lparr>m_pPattern = \<lparr>pattern_length = 192, pattern_denominator = 4\<rparr>,
      panel_nResolution = 16, panel_nTupletNumerator = 4, panel_nTupletDenominator = 4,
      m_pDrumPatternEditor = setTupletRatio 4 4 example_editor,
      m_pPianoRollEditor = setTupletRatio 4 4 example_editor,
      m_pNoteVelocityEditor = setTupletRatio 4 4 example_editor,
      m_pNoteLeadLagEditor = setTupletRatio 4 4 example_editor,
      m_pNoteNoteKeyEditor = setTupletRatio 4 4 example_editor,
      m_pNoteProbabilityEditor = setTupletRatio 4 4 example_editor,
      m_pNotePanEditor = setTupletRatio 4 4 example_editor,
      pPref = \<lparr>patternEditorGridResolution = 16, patternEditorGridTupletNumerator = 4,
                patternEditorGridTupletDenominator = 4\<rparr>,
      m_pTupletLCD = ''off'', pattern_size_LCD = ''4/4'', m_pDenominatorWarning = False,
      m_nCursorIndexPosition = 0, m_nCursorIncrement = 12\<rparr>"

text \<open>The initial panel with a pattern of 38 ticks and the denominator 5.\<close>

definition approximated_panel :: panel where
  "approximated_panel =
     initial_panel\<lparr>m_pPattern := \<lparr>pattern_length = 38, pattern_denominator = 5\<rparr>\<rparr>"

text \<open>
  The example panel (resolution 16, ratio 5:4, granularity 9.6) with a pattern of 10
  ticks and with a pattern of 19 ticks.
\<close>

definition edge_panel :: panel where
  "edge_panel = example_panel\<lparr>m_pPattern := \<lparr>pattern_length = 10, pattern_denominator = 192\<rparr>\<rparr>"

definition clamp_panel :: panel where
  "clamp_panel = example_panel\<lparr>m_pPattern := \<lparr>pattern_length = 19, pattern_denominator = 192\<rparr>\<rparr>"



section \<open>Integer arithmetic\<close>

lemma c_int_Some: "INT_MIN \<le> v \<Longrightarrow> v \<le> INT_MAX \<Longrightarrow> c_int v = Some v"
  by (simp add: c_int_def)

lemma c_div_defined:
  assumes "b \<noteq> 0" "\<bar>a\<bar> \<le> INT_MAX"
  shows "\<exists>q. c_div a b = Some q"
proof -
  have nonneg: "0 \<le> \<bar>a\<bar> div \<bar>b\<bar>"
    using assms(1) by (simp add: pos_imp_zdiv_nonneg_iff)
  have "\<bar>a\<bar> div \<bar>b\<bar> \<le> \<bar>a\<bar> div 1"
    using assms(1) by (intro zdiv_mono2) simp_all
  then have le: "\<bar>a\<bar> div \<bar>b\<bar> \<le> \<bar>a\<bar>"
    by simp
  have "\<bar>sgn a * sgn b * (\<bar>a\<bar> div \<bar>b\<bar>)\<bar> = \<bar>sgn a\<bar> * \<bar>sgn b\<bar> * (\<bar>a\<bar> div \<bar>b\<bar>)"
    using nonneg by (simp add: abs_mult)
  also have "\<dots> \<le> \<bar>a\<bar> div \<bar>b\<bar>"
    using nonneg by (cases "a = 0") (simp_all add: abs_sgn_eq)
  finally have "\<bar>sgn a * sgn b * (\<bar>a\<bar> div \<bar>b\<bar>)\<bar> \<le> INT_MAX"
    using le assms(2) by linarith
  then have "INT_MIN \<le> sgn a * sgn b * (\<bar>a\<bar> div \<bar>b\<bar>)"
    and "sgn a * sgn b * (\<bar>a\<bar> div \<bar>b\<bar>) \<le> INT_MAX"
    unfolding INT_MIN_def INT_MAX_def by linarith+
  then show ?thesis
    using assms(1) by (simp add: c_div_def c_int_def)
qed

lemma to_unsigned_id: "0 \<le> v \<Longrightarrow> v < 2 ^ 32 \<Longrightarrow> to_unsigned v = v"
  by (simp add: to_unsigned_def)

lemma gridResolutionChanged_plain_eq:
  assumes "0 \<le> i" "i \<le> 4"
  shows "\<exists>inc. gridResolutionChanged i s =
     Some ((setResolutionToAllEditors (2 ^ nat (i + 2)) s)
        \<lparr>m_nCursorIncrement := inc,
          pPref := (pPref s)\<lparr>patternEditorGridResolution := 2 ^ nat (i + 2)\<rparr>\<rparr>)"
proof -
  let ?r = "2 ^ nat (i + 2) :: int"
  have r: "1 \<le> ?r" "?r \<le> 2 ^ 6"
    using assms power_increasing [of "nat (i + 2)" 6 "2::int"] by simp_all
  have sh: "shl1 (i + 2) = Some ?r"
    using assms by (simp add: shl1_def)
  have c3: "c_int (?r * 3) = Some (?r * 3)"
  proof (rule c_int_Some)
    have "0 \<le> ?r * 3" by simp
    then show "INT_MIN \<le> ?r * 3" unfolding INT_MIN_def by linarith
    show "?r * 3 \<le> INT_MAX" using r(2) by (simp add: INT_MAX_def)
  qed
  have pref: "pPref (setResolutionToAllEditors ?r s) = pPref s"
    by (simp add: setResolutionToAllEditors_def)
  have "\<exists>inc. c_div ((if patternEditorGridTupletNumerator (pPref s) = 3 then 4 else 3)
       * MAX_NOTES) (?r * 3) = Some inc"
    by (rule c_div_defined) (simp_all add: MAX_NOTES_def INT_MAX_def)
  then obtain inc where inc:
    "c_div ((if patternEditorGridTupletNumerator (pPref s) = 3 then 4 else 3) * MAX_NOTES)
       (?r * 3) = Some inc" ..
  show ?thesis
    using assms sh c3 inc pref by (auto simp: gridResolutionChanged_def)
qed

section \<open>The grid resolution and the tuplet ratio of the editors\<close>

lemma editors_setResolutionToAllEditors:
  "editors (setResolutionToAllEditors r s) = map (setResolution r) (editors s)"
  by (simp add: editors_def setResolutionToAllEditors_def)

lemma editors_setTupletRatioToAllEditors:
  "editors (setTupletRatioToAllEditors n d s) = map (setTupletRatio n d) (editors s)"
  by (simp add: editors_def setTupletRatioToAllEditors_def)

lemma editors_frame [simp]:
  "editors (s\<lparr>m_nCursorIncrement := i\<rparr>) = editors s"
  "editors (s\<lparr>pPref := p\<rparr>) = editors s"
  "editors (s\<lparr>m_pTupletLCD := t\<rparr>) = editors s"
  by (simp_all add: editors_def)

lemma gridResolutionChanged_off_eq:
  "gridResolutionChanged 11 s =
     Some ((setResolutionToAllEditors MAX_NOTES
             (setTupletRatioToAllEditors 4 4
               ((setPatternEditorGridTupletRatio 4 4 s)\<lparr>m_pTupletLCD := ratio_text 4 4\<rparr>)))
        \<lparr>m_nCursorIncrement := 1,
          pPref := (pPref s)\<lparr>patternEditorGridTupletNumerator := 4,
                     patternEditorGridTupletDenominator := 4,
                     patternEditorGridResolution := MAX_NOTES\<rparr>\<rparr>)"
  by (simp add: gridResolutionChanged_def setResolutionToAllEditors_def
      setTupletRatioToAllEditors_def setPatternEditorGridTupletRatio_def
      c_int_def c_div_def INT_MAX_def INT_MIN_def MAX_NOTES_def)

text \<open>
  Claim C10. \<open>gridResolutionChanged\<close> with a plain resolution (index 0 to 4) sets the
  resolution of the panel and of every editor to \<open>2^(index+2)\<close> and leaves every tuplet
  numerator and denominator (of the editors, of the panel and of the preferences) as it
  was; with the selection "off" (index 11) it sets the resolution to 192 and overwrites
  every tuplet ratio with 4:4, whatever the ratio was before.
\<close>

theorem gridResolutionChanged_frame:
  "(0 \<le> nSelected \<and> nSelected \<le> 4 \<longrightarrow>
      (\<exists>s'. gridResolutionChanged nSelected s = Some s'
         \<and> (\<forall>e \<in> set (editors s'). m_nResolution e = 2 ^ nat (nSelected + 2))
         \<and> map m_nTupletNumerator (editors s') = map m_nTupletNumerator (editors s)
         \<and> map m_nTupletDenominator (editors s') = map m_nTupletDenominator (editors s)
         \<and> panel_nResolution s' = 2 ^ nat (nSelected + 2)
         \<and> panel_nTupletNumerator s' = panel_nTupletNumerator s
         \<and> panel_nTupletDenominator s' = panel_nTupletDenominator s
         \<and> patternEditorGridTupletNumerator (pPref s')
             = patternEditorGridTupletNumerator (pPref s)
         \<and> patternEditorGridTupletDenominator (pPref s')
             = patternEditorGridTupletDenominator (pPref s)))
   \<and> (\<exists>s'. gridResolutionChanged 11 s = Some s'
         \<and> (\<forall>e \<in> set (editors s'). m_nResolution e = 192
               \<and> m_nTupletNumerator e = 4 \<and> m_nTupletDenominator e = 4)
         \<and> panel_nResolution s' = 192
         \<and> panel_nTupletNumerator s' = 4 \<and> panel_nTupletDenominator s' = 4
         \<and> patternEditorGridTupletNumerator (pPref s') = 4
         \<and> patternEditorGridTupletDenominator (pPref s') = 4)"
proof (intro conjI impI)
  assume range: "0 \<le> nSelected \<and> nSelected \<le> 4"
  let ?r = "2 ^ nat (nSelected + 2) :: int"
  from range have "nat (nSelected + 2) \<le> 6"
    by linarith
  then have "?r \<le> 2 ^ 6"
    by (rule power_increasing) simp
  then have u: "to_unsigned ?r = ?r"
    by (intro to_unsigned_id) simp_all
  from range obtain inc where changed:
    "gridResolutionChanged nSelected s =
       Some ((setResolutionToAllEditors ?r s)
          \<lparr>m_nCursorIncrement := inc,
            pPref := (pPref s)\<lparr>patternEditorGridResolution := ?r\<rparr>\<rparr>)"
    using gridResolutionChanged_plain_eq [of nSelected s] by blast
  define s' where "s' = (setResolutionToAllEditors ?r s)
          \<lparr>m_nCursorIncrement := inc,
            pPref := (pPref s)\<lparr>patternEditorGridResolution := ?r\<rparr>\<rparr>"
  have e: "editors s' = map (setResolution ?r) (editors s)"
    by (simp add: s'_def editors_setResolutionToAllEditors)
  have own: "panel_nResolution s' = ?r"
    "panel_nTupletNumerator s' = panel_nTupletNumerator s"
    "panel_nTupletDenominator s' = panel_nTupletDenominator s"
    "patternEditorGridTupletNumerator (pPref s') = patternEditorGridTupletNumerator (pPref s)"
    "patternEditorGridTupletDenominator (pPref s')
       = patternEditorGridTupletDenominator (pPref s)"
    by (simp_all add: s'_def setResolutionToAllEditors_def)
  have "(\<forall>e \<in> set (editors s'). m_nResolution e = ?r)
      \<and> map m_nTupletNumerator (editors s') = map m_nTupletNumerator (editors s)
      \<and> map m_nTupletDenominator (editors s') = map m_nTupletDenominator (editors s)"
    by (simp add: e setResolution_def u comp_def)
  with changed own show "\<exists>s'. gridResolutionChanged nSelected s = Some s'
         \<and> (\<forall>e \<in> set (editors s'). m_nResolution e = 2 ^ nat (nSelected + 2))
         \<and> map m_nTupletNumerator (editors s') = map m_nTupletNumerator (editors s)
         \<and> map m_nTupletDenominator (editors s') = map m_nTupletDenominator (editors s)
         \<and> panel_nResolution s' = 2 ^ nat (nSelected + 2)
         \<and> panel_nTupletNumerator s' = panel_nTupletNumerator s
         \<and> panel_nTupletDenominator s' = panel_nTupletDenominator s
         \<and> patternEditorGridTupletNumerator (pPref s')
             = patternEditorGridTupletNumerator (pPref s)
         \<and> patternEditorGridTupletDenominator (pPref s')
             = patternEditorGridTupletDenominator (pPref s)"
    unfolding s'_def by blast
next
  have u: "to_unsigned MAX_NOTES = 192"
    by (simp add: to_unsigned_def MAX_NOTES_def)
  define s' where "s' = (setResolutionToAllEditors MAX_NOTES
             (setTupletRatioToAllEditors 4 4
               ((setPatternEditorGridTupletRatio 4 4 s)\<lparr>m_pTupletLCD := ratio_text 4 4\<rparr>)))
        \<lparr>m_nCursorIncrement := 1,
          pPref := (pPref s)\<lparr>patternEditorGridTupletNumerator := 4,
                     patternEditorGridTupletDenominator := 4,
                     patternEditorGridResolution := MAX_NOTES\<rparr>\<rparr>"
  have changed: "gridResolutionChanged 11 s = Some s'"
    unfolding s'_def by (rule gridResolutionChanged_off_eq)
  have e: "editors s'
      = map (setResolution MAX_NOTES) (map (setTupletRatio 4 4)
          (editors ((setPatternEditorGridTupletRatio 4 4 s)\<lparr>m_pTupletLCD := ratio_text 4 4\<rparr>)))"
    by (simp add: s'_def editors_setResolutionToAllEditors editors_setTupletRatioToAllEditors)
  have own: "panel_nResolution s' = 192"
    "panel_nTupletNumerator s' = 4" "panel_nTupletDenominator s' = 4"
    "patternEditorGridTupletNumerator (pPref s') = 4"
    "patternEditorGridTupletDenominator (pPref s') = 4"
    by (simp_all add: s'_def setResolutionToAllEditors_def setTupletRatioToAllEditors_def
        MAX_NOTES_def)
  have "\<forall>e \<in> set (editors s'). m_nResolution e = 192
               \<and> m_nTupletNumerator e = 4 \<and> m_nTupletDenominator e = 4"
    by (simp add: e setResolution_def setTupletRatio_def u)
  with changed own show "\<exists>s'. gridResolutionChanged 11 s = Some s'
         \<and> (\<forall>e \<in> set (editors s'). m_nResolution e = 192
               \<and> m_nTupletNumerator e = 4 \<and> m_nTupletDenominator e = 4)
         \<and> panel_nResolution s' = 192
         \<and> panel_nTupletNumerator s' = 4 \<and> panel_nTupletDenominator s' = 4
         \<and> patternEditorGridTupletNumerator (pPref s') = 4
         \<and> patternEditorGridTupletDenominator (pPref s') = 4"
    by blast
qed

text \<open>
  The panel with the ratio 5:4 keeps it at the index 2 (resolution 16) and loses it at the
  index 11.
\<close>

theorem gridResolutionChanged_frame_witness:
  "(0::int) \<le> 2 \<and> (2::int) \<le> 4
   \<and> (\<exists>s'. gridResolutionChanged 2 example_panel = Some s'
         \<and> map m_nResolution (editors s') = replicate 7 16
         \<and> map m_nTupletNumerator (editors s') = replicate 7 5
         \<and> map m_nTupletDenominator (editors s') = replicate 7 4)
   \<and> (\<exists>s'. gridResolutionChanged 11 example_panel = Some s'
         \<and> map m_nResolution (editors s') = replicate 7 192
         \<and> map m_nTupletNumerator (editors s') = replicate 7 4
         \<and> map m_nTupletDenominator (editors s') = replicate 7 4)"
proof -
  have len: "length (editors t) = 7" for t
    by (simp add: editors_def)
  have all_eq: "map f (editors t) = replicate 7 v" if "\<forall>e \<in> set (editors t). f e = v"
    for f :: "pattern_editor \<Rightarrow> int" and t v
    using that len [of t] by (metis map_replicate_const map_eq_conv length_map map_ext replicate_length_same set_map image_iff)
  have ex: "map m_nTupletNumerator (editors example_panel) = replicate 7 5"
    "map m_nTupletDenominator (editors example_panel) = replicate 7 4"
    by (simp_all add: editors_def example_panel_def example_editor_def numeral_eq_Suc)
  from gridResolutionChanged_frame [of 2 example_panel] obtain s1 s2 where
    s1: "gridResolutionChanged 2 example_panel = Some s1"
      "\<forall>e \<in> set (editors s1). m_nResolution e = 16"
      "map m_nTupletNumerator (editors s1) = map m_nTupletNumerator (editors example_panel)"
      "map m_nTupletDenominator (editors s1) = map m_nTupletDenominator (editors example_panel)"
    and s2: "gridResolutionChanged 11 example_panel = Some s2"
      "\<forall>e \<in> set (editors s2). m_nResolution e = 192
               \<and> m_nTupletNumerator e = 4 \<and> m_nTupletDenominator e = 4"
    by auto
  show ?thesis
    using s1 s2 ex all_eq [of s1 m_nResolution 16] all_eq [of s2 m_nResolution 192]
      all_eq [of s2 m_nTupletNumerator 4] all_eq [of s2 m_nTupletDenominator 4]
    by simp
qed

section \<open>The standard denominator of a tuplet\<close>

lemma standardDenominator_loop:
  assumes "0 < d" "d \<le> n" "n < 2 ^ 30"
  shows "\<exists>k. standardDenominator n d = Some (d * 2 ^ k) \<and> d * 2 ^ k \<le> n \<and> n < 2 * (d * 2 ^ k)"
  using assms
proof (induction "nat (n - d)" arbitrary: d rule: less_induct)
  case less
  have twice: "c_int (2 * d) = Some (2 * d)"
    using less.prems by (intro c_int_Some) (simp_all add: INT_MIN_def INT_MAX_def)
  show ?case
  proof (cases "2 * d \<le> n")
    case True
    have "nat (n - d * 2) < nat (n - d)"
      using less.prems True by linarith
    moreover have "0 < d * 2" "d * 2 \<le> n"
      using less.prems True by simp_all
    ultimately obtain k where k:
      "standardDenominator n (d * 2) = Some (d * 2 * 2 ^ k)"
      "d * 2 * 2 ^ k \<le> n" "n < 2 * (d * 2 * 2 ^ k)"
      using less.hyps [of "d * 2"] less.prems(3) by blast
    have "standardDenominator n d = standardDenominator n (d * 2)"
      using True twice by (subst standardDenominator.simps) simp
    with k show ?thesis
      by (intro exI [of _ "Suc k"]) (simp add: mult.assoc)
  next
    case False
    have "standardDenominator n d = Some d"
      using False twice by (subst standardDenominator.simps) simp
    with False less.prems show ?thesis
      by (intro exI [of _ 0]) simp
  qed
qed

lemma standardDenominator_start:
  assumes "0 < n" "n < 2 ^ 30"
  shows "\<exists>k. standardDenominator n 1 = Some (2 ^ k) \<and> 2 ^ k \<le> n \<and> n < 2 * 2 ^ k"
  using standardDenominator_loop [of 1 n] assms by simp

lemma editors_tuplet_frame [simp]:
  "editors (setPatternEditorGridTupletRatio a b s) = editors s"
  by (simp add: editors_def setPatternEditorGridTupletRatio_def)

lemma tupletEntered_accepted:
  assumes "0 < num" "num \<le> 20"
  shows "\<exists>s'. tupletEntered True num den s = ([], s')
    \<and> panel_nTupletNumerator s' = num \<and> panel_nTupletDenominator s' = den
    \<and> (\<forall>e \<in> set (editors s'). m_nTupletNumerator e = num \<and> m_nTupletDenominator e = den)
    \<and> patternEditorGridTupletNumerator (pPref s') = num
    \<and> patternEditorGridTupletDenominator (pPref s') = den
    \<and> m_pTupletLCD s' = ratio_text num den"
proof -
  define s' where "s' = (setTupletRatioToAllEditors num den
      (setPatternEditorGridTupletRatio num den s))\<lparr>m_pTupletLCD := ratio_text num den\<rparr>"
  have r: "tupletEntered True num den s = ([], s')"
    using assms by (simp add: tupletEntered_def s'_def)
  have e: "editors s' = map (setTupletRatio num den) (editors s)"
    by (simp add: s'_def editors_setTupletRatioToAllEditors)
  have own: "panel_nTupletNumerator s' = num" "panel_nTupletDenominator s' = den"
    "patternEditorGridTupletNumerator (pPref s') = num"
    "patternEditorGridTupletDenominator (pPref s') = den"
    "m_pTupletLCD s' = ratio_text num den"
    by (simp_all add: s'_def setTupletRatioToAllEditors_def setPatternEditorGridTupletRatio_def)
  have "\<forall>e \<in> set (editors s'). m_nTupletNumerator e = num \<and> m_nTupletDenominator e = den"
    by (simp add: e setTupletRatio_def)
  with r own show ?thesis by blast
qed

lemma power_two_between_4_and_5:
  assumes "(2::int) ^ k \<le> 5" "5 < 2 * (2::int) ^ k"
  shows "(2::int) ^ k = 4"
proof -
  have "k < 3"
  proof (rule ccontr)
    assume "\<not> k < 3"
    then have "(2::int) ^ 3 \<le> 2 ^ k"
      by (intro power_increasing) simp_all
    with assms(1) show False by simp
  qed
  moreover have "k \<noteq> 0"
  proof
    assume "k = 0"
    with assms(2) show False by simp
  qed
  moreover have "k \<noteq> 1"
  proof
    assume "k = 1"
    with assms(2) show False by simp
  qed
  ultimately have "k = 2" by linarith
  then show ?thesis by simp
qed

lemma decimal_toInt_5: "toInt decimal_qt ''5'' = Some 5"
  by (simp add: decimal_qt_def decimal_toInt_def parse_nat_def digit_val_def c_int_def
      INT_MIN_def INT_MAX_def)

text \<open>
  Claim C8. When a tuplet expression gives the numerator alone, the denominator is the
  result of the loop \<open>den = 1; while 2 * den <= num: den *= 2\<close>: the largest power
  of two that does not exceed the numerator. The loop has this result for every
  numerator from 1 up to \<open>2^30 - 1\<close> (from \<open>2^30\<close> on \<open>2 * den\<close> overflows); an
  accepted numerator (1 to 20) is stored with this denominator in the panel, in every
  editor and in the preferences, and displayed as \<open>num:den\<close>. In particular the text
  "5" gives the ratio 5:4.
\<close>

theorem tuplet_standard_denominator:
  "(0 < num \<and> num < 2 ^ 30 \<longrightarrow>
      (\<exists>k. standardDenominator num 1 = Some (2 ^ k) \<and> 2 ^ k \<le> num \<and> num < 2 * 2 ^ k))
   \<and> (split CHR '':'' qtmp = [numerator_text] \<and> toInt lib numerator_text = Some num
        \<and> 0 < num \<and> num \<le> 20 \<and> m_pTupletLCD s \<noteq> qtmp \<longrightarrow>
      (\<exists>k s'. tupletLCDClicked lib True qtmp s = Some ([], s')
         \<and> 2 ^ k \<le> num \<and> num < 2 * 2 ^ k
         \<and> panel_nTupletNumerator s' = num \<and> panel_nTupletDenominator s' = 2 ^ k
         \<and> (\<forall>e \<in> set (editors s').
               m_nTupletNumerator e = num \<and> m_nTupletDenominator e = 2 ^ k)
         \<and> patternEditorGridTupletNumerator (pPref s') = num
         \<and> patternEditorGridTupletDenominator (pPref s') = 2 ^ k
         \<and> m_pTupletLCD s' = ratio_text num (2 ^ k)))"
proof (intro conjI impI)
  assume "0 < num \<and> num < 2 ^ 30"
  then show "\<exists>k. standardDenominator num 1 = Some (2 ^ k) \<and> 2 ^ k \<le> num \<and> num < 2 * 2 ^ k"
    using standardDenominator_start by blast
next
  assume a: "split CHR '':'' qtmp = [numerator_text] \<and> toInt lib numerator_text = Some num
        \<and> 0 < num \<and> num \<le> 20 \<and> m_pTupletLCD s \<noteq> qtmp"
  then have "num < 2 ^ 30" by simp
  with a obtain k where k: "standardDenominator num 1 = Some (2 ^ k)"
    "2 ^ k \<le> num" "num < 2 * 2 ^ k"
    using standardDenominator_start [of num] by blast
  from a have "tupletLCDClicked lib True qtmp s = Some (tupletEntered True num (2 ^ k) s)"
    using k(1) by (simp add: tupletLCDClicked_def toInt_ok_def)
  moreover from a obtain s' where "tupletEntered True num (2 ^ k) s = ([], s')"
    "panel_nTupletNumerator s' = num" "panel_nTupletDenominator s' = 2 ^ k"
    "\<forall>e \<in> set (editors s'). m_nTupletNumerator e = num \<and> m_nTupletDenominator e = 2 ^ k"
    "patternEditorGridTupletNumerator (pPref s') = num"
    "patternEditorGridTupletDenominator (pPref s') = 2 ^ k"
    "m_pTupletLCD s' = ratio_text num (2 ^ k)"
    using tupletEntered_accepted [of num "2 ^ k" s] by blast
  ultimately show "\<exists>k s'. tupletLCDClicked lib True qtmp s = Some ([], s')
         \<and> 2 ^ k \<le> num \<and> num < 2 * 2 ^ k
         \<and> panel_nTupletNumerator s' = num \<and> panel_nTupletDenominator s' = 2 ^ k
         \<and> (\<forall>e \<in> set (editors s').
               m_nTupletNumerator e = num \<and> m_nTupletDenominator e = 2 ^ k)
         \<and> patternEditorGridTupletNumerator (pPref s') = num
         \<and> patternEditorGridTupletDenominator (pPref s') = 2 ^ k
         \<and> m_pTupletLCD s' = ratio_text num (2 ^ k)"
    using k(2,3) by auto
qed

theorem tuplet_standard_denominator_witness:
  "split CHR '':'' ''5'' = [''5''] \<and> toInt decimal_qt ''5'' = Some 5
   \<and> (\<exists>s'. tupletLCDClicked decimal_qt True ''5'' initial_panel = Some ([], s')
         \<and> panel_nTupletNumerator s' = 5 \<and> panel_nTupletDenominator s' = 4
         \<and> map m_nTupletNumerator (editors s') = replicate 7 5
         \<and> map m_nTupletDenominator (editors s') = replicate 7 4
         \<and> patternEditorGridTupletNumerator (pPref s') = 5
         \<and> patternEditorGridTupletDenominator (pPref s') = 4
         \<and> m_pTupletLCD s' = ''5:4'')
   \<and> standardDenominator 5 1 = Some 4"
proof -
  have len: "length (editors t) = 7" for t
    by (simp add: editors_def)
  have all_eq: "map f (editors t) = replicate 7 v" if "\<forall>e \<in> set (editors t). f e = v"
    for f :: "pattern_editor \<Rightarrow> int" and t v
    using that len [of t] by (metis map_replicate_const map_eq_conv length_map)
  have sp: "split CHR '':'' ''5'' = [''5'']" by simp
  have lcd: "m_pTupletLCD initial_panel \<noteq> ''5''" by (simp add: initial_panel_def)
  note inst = tuplet_standard_denominator [of 5 "''5''" "''5''" decimal_qt initial_panel]
  from inst obtain k where k: "standardDenominator 5 1 = Some (2 ^ k)"
    "(2::int) ^ k \<le> 5" "5 < 2 * (2::int) ^ k"
    by auto
  from inst sp lcd decimal_toInt_5 obtain j s' where s':
    "tupletLCDClicked decimal_qt True ''5'' initial_panel = Some ([], s')"
    "(2::int) ^ j \<le> 5" "5 < 2 * (2::int) ^ j"
    "panel_nTupletNumerator s' = 5" "panel_nTupletDenominator s' = 2 ^ j"
    "\<forall>e \<in> set (editors s'). m_nTupletNumerator e = 5 \<and> m_nTupletDenominator e = 2 ^ j"
    "patternEditorGridTupletNumerator (pPref s') = 5"
    "patternEditorGridTupletDenominator (pPref s') = 2 ^ j"
    "m_pTupletLCD s' = ratio_text 5 (2 ^ j)"
    by auto
  have k4: "(2::int) ^ k = 4" and j4: "(2::int) ^ j = 4"
    using k s' power_two_between_4_and_5 by blast+
  have shown: "ratio_text 5 4 = ''5:4''"
    by (simp add: ratio_text_def arg_int_def digits.simps)
  show ?thesis
    using sp decimal_toInt_5 k(1) s' k4 j4 shown
      all_eq [of s' m_nTupletNumerator 5] all_eq [of s' m_nTupletDenominator 4]
    by auto
qed

section \<open>The display of the tuplet\<close>

lemma tupletEntered_cases:
  "tupletEntered bOk n d s =
     (if bOk \<and> 0 < n \<and> n \<le> 20 then ([], tupletAccepted n d s)
      else if bOk \<and> 0 < n then ([TupletNumeratorTooBig], s)
      else ([TextRejected], s))"
  by (simp add: tupletEntered_def tupletAccepted_def)

lemma tupletEntered_rejected:
  "tupletEntered bOk n d s = (msgs, s') \<Longrightarrow> \<exists>m \<in> set msgs. is_rejection m \<Longrightarrow> s' = s"
  by (auto simp: tupletEntered_cases split: if_splits)

lemma tupletLCDClicked_rejected:
  assumes "tupletLCDClicked lib ok qtmp s = Some (msgs, s')" "\<exists>m \<in> set msgs. is_rejection m"
  shows "s' = s"
  using assms tupletEntered_rejected
  by (auto simp: tupletLCDClicked_def Let_def split: if_splits prod.splits Option.bind_splits)

lemma tupletLCDClicked_accepted:
  assumes "tupletLCDClicked lib True qtmp s = Some ([], s')" "m_pTupletLCD s \<noteq> qtmp"
  shows "\<exists>n d. s' = tupletAccepted n d s"
  using assms
  by (auto simp: tupletLCDClicked_def Let_def tupletEntered_cases
      split: if_splits prod.splits Option.bind_splits)

lemma digits_hd: "digits n \<noteq> [] \<and> hd (digits n) \<in> set ''0123456789''"
proof (induction n rule: digits.induct)
  case (1 n)
  show ?case
  proof (cases "n < 10")
    case True
    then have "n \<in> {0, 1, 2, 3, 4, 5, 6, 7, 8, 9}" by auto
    then show ?thesis
      by (subst (1 2) digits.simps) auto
  next
    case False
    with 1 show ?thesis
      by (subst (1 2) digits.simps) simp
  qed
qed

lemma ratio_text_not_off: "ratio_text n d \<noteq> ''off''"
proof -
  have "hd (ratio_text n d) \<in> set ''-0123456789''"
    using digits_hd [of "nat n"] digits_hd [of "nat (- n)"]
    by (auto simp: ratio_text_def arg_int_def)
  then show ?thesis by auto
qed

lemma tupletAccepted_fields:
  "panel_nTupletNumerator (tupletAccepted n d s) = n"
  "panel_nTupletDenominator (tupletAccepted n d s) = d"
  "m_pTupletLCD (tupletAccepted n d s) = ratio_text n d"
  by (simp_all add: tupletAccepted_def setTupletRatioToAllEditors_def)

lemma initial_panel_LCD: "m_pTupletLCD initial_panel = ''off''"
  by (simp add: initial_panel_def)

lemmas decimal_toInt_eval = decimal_qt_def decimal_toInt_def parse_nat_def digit_val_def
  c_int_def INT_MIN_def INT_MAX_def toInt_ok_def

lemma tupletLCDClicked_displays_ratio:
  assumes "tupletLCDClicked lib True qtmp s = Some ([], s')" "m_pTupletLCD s \<noteq> qtmp"
  shows "m_pTupletLCD s' = ratio_text (panel_nTupletNumerator s') (panel_nTupletDenominator s')"
    and "m_pTupletLCD s' \<noteq> ''off''"
proof -
  obtain n d where "s' = tupletAccepted n d s"
    using tupletLCDClicked_accepted [OF assms] by blast
  then show "m_pTupletLCD s'
      = ratio_text (panel_nTupletNumerator s') (panel_nTupletDenominator s')"
    and "m_pTupletLCD s' \<noteq> ''off''"
    by (simp_all add: tupletAccepted_fields ratio_text_not_off)
qed

lemma tupletLCDClicked_4:
  "tupletLCDClicked decimal_qt True ''4'' initial_panel
     = Some ([], tupletAccepted 4 4 initial_panel)"
  by (simp add: tupletLCDClicked_def initial_panel_LCD decimal_toInt_eval MAX_NOTES_def
      tupletEntered_cases standardDenominator.simps)

lemma initial_panel_ratio:
  "panel_nTupletNumerator initial_panel = 4" "panel_nTupletDenominator initial_panel = 4"
  by (simp_all add: initial_panel_def)

text \<open>
  Claim C9 does not hold of the program. When \<open>tupletLCDClicked\<close> accepts an expression
  it displays the ratio as \<open>num:den\<close>, whatever the ratio is. On the panel that holds the
  ratio 4:4 and displays "off", entering "4", which the prompt of the dialog gives as
  the way to set the tuplet off, is accepted, stores the ratio 4:4 and displays "4:4".
  The constructor displays the same ratio 4:4 as "off".
\<close>

theorem tuplet_off_displayed_as_ratio:
  "restoredTupletLCD 4 4 = ''off''
   \<and> panel_nTupletNumerator initial_panel = 4
   \<and> panel_nTupletDenominator initial_panel = 4
   \<and> m_pTupletLCD initial_panel = ''off''
   \<and> toInt decimal_qt ''4'' = Some 4
   \<and> map_option fst (tupletLCDClicked decimal_qt True ''4'' initial_panel) = Some []
   \<and> map_option (panel_nTupletNumerator \<circ> snd)
       (tupletLCDClicked decimal_qt True ''4'' initial_panel) = Some 4
   \<and> map_option (panel_nTupletDenominator \<circ> snd)
       (tupletLCDClicked decimal_qt True ''4'' initial_panel) = Some 4
   \<and> map_option (m_pTupletLCD \<circ> snd)
       (tupletLCDClicked decimal_qt True ''4'' initial_panel) = Some ''4:4''
   \<and> fst (tupletEntered True 4 4 s) = []
   \<and> m_pTupletLCD (snd (tupletEntered True 4 4 s)) = ''4:4''"
proof -
  have "toInt decimal_qt ''4'' = Some 4"
    by (simp add: decimal_toInt_eval)
  then show ?thesis
    by (simp add: restoredTupletLCD_def initial_panel_ratio initial_panel_LCD
        tupletLCDClicked_4 tupletEntered_cases tupletAccepted_fields ratio_text_def arg_int_def
        digits.simps)
qed

section \<open>Rejected expressions change nothing\<close>

lemma split_nonempty: "split sep t \<noteq> []"
  by (induction t) auto

lemma patternSizeEntered_rejected:
  "patternSizeEntered lib bOk v d s = Some (msgs, s') \<Longrightarrow> \<exists>m \<in> set msgs. is_rejection m
     \<Longrightarrow> s' = s"
  by (auto simp: patternSizeEntered_def split: if_splits Option.bind_splits)

lemma patternSizeLCDClicked_rejected:
  assumes "patternSizeLCDClicked lib ready ok qtmp s = Some (msgs, s')"
    "\<exists>m \<in> set msgs. is_rejection m"
  shows "s' = s"
  using assms patternSizeEntered_rejected
  by (auto simp: patternSizeLCDClicked_def Let_def split: if_splits prod.splits)

lemma standardDenominator_nonpositive:
  "n \<le> 0 \<Longrightarrow> standardDenominator n 1 = Some 1"
  by (subst standardDenominator.simps) (simp add: c_int_def INT_MIN_def INT_MAX_def)

lemma standardDenominator_defined:
  assumes "n < 2 ^ 30"
  shows "\<exists>d. standardDenominator n 1 = Some d"
proof (cases "0 < n")
  case True
  with assms show ?thesis using standardDenominator_start [of n] by blast
next
  case False
  then show ?thesis using standardDenominator_nonpositive [of n] by simp
qed

lemma patternSizeLCDClicked_rejects:
  assumes "length_expression_rejected lib s qtmp" "pattern_size_LCD s \<noteq> qtmp"
  shows "\<exists>m. patternSizeLCDClicked lib True True qtmp s = Some ([m], s) \<and> is_rejection m"
proof -
  have "length (split CHR ''/'' qtmp) \<noteq> 0"
    using split_nonempty by simp
  then have "length (split CHR ''/'' qtmp) = 1 \<or> length (split CHR ''/'' qtmp) = 2
      \<or> 2 < length (split CHR ''/'' qtmp)"
    by linarith
  then show ?thesis
    using assms
    by (auto simp: length_expression_rejected_def patternSizeLCDClicked_def Let_def
        toDouble_ok_def toInt_ok_def patternSizeEntered_def
        split: option.splits if_splits)
qed

lemma tupletLCDClicked_rejects:
  assumes "tuplet_expression_rejected lib qtmp" "tuplet_loop_defined lib qtmp"
    "m_pTupletLCD s \<noteq> qtmp"
  shows "\<exists>m. tupletLCDClicked lib True qtmp s = Some ([m], s) \<and> is_rejection m"
proof -
  have "length (split CHR '':'' qtmp) \<noteq> 0"
    using split_nonempty by simp
  then have "length (split CHR '':'' qtmp) = 1 \<or> length (split CHR '':'' qtmp) = 2
      \<or> 2 < length (split CHR '':'' qtmp)"
    by linarith
  moreover have "standardDenominator 0 1 = Some 1"
    by (rule standardDenominator_nonpositive) simp
  ultimately show ?thesis
    using assms standardDenominator_defined
    by (fastforce simp: tuplet_expression_rejected_def tuplet_loop_defined_def
        tupletLCDClicked_def Let_def toInt_ok_def tupletEntered_cases
        split: option.splits if_splits)
qed

lemma floor_rat_numeral_div [simp]:
  "\<lfloor>numeral a / numeral b :: rat\<rfloor> = numeral a div numeral b"
  by (metis floor_divide_of_int_eq of_int_numeral)

lemmas fround_eval = fround_def quantum_def ilog2_def pow2_def round_half_even_def
  bit_length.simps Let_def binary32_def binary64_def of_int_fp_def

lemmas decimal_toDouble_eval = decimal_qt_def decimal_toDouble_def digit_val_def
  toDouble_ok_def replace_comma_def

lemma initial_panel_size_LCD: "pattern_size_LCD initial_panel = ''4/4''"
  by (simp add: initial_panel_def)

lemma size_17_4_rejected: "length_expression_rejected decimal_qt initial_panel ''17/4''"
  by (simp add: length_expression_rejected_def decimal_toDouble_eval decimal_toInt_eval
      fround_eval MAX_NOTES_def)

lemma tuplet_25_rejected:
  "tuplet_expression_rejected decimal_qt ''25''" "tuplet_loop_defined decimal_qt ''25''"
  by (simp_all add: tuplet_expression_rejected_def tuplet_loop_defined_def decimal_toInt_eval)

text \<open>
  Claim C7. Whenever \<open>patternSizeLCDClicked\<close> or \<open>tupletLCDClicked\<close> rejects its input
  (it opens one of the rejecting message boxes), the panel is left as it was: the length
  and the denominator of the pattern, the resolution and the tuplet ratio of the panel,
  of the editors and of the preferences, and the displays. Every reason of the list
  (more than one separator, a numerator that is not a number or not positive, a
  denominator outside \<open>(0, 192]\<close>, a length above four whole notes, a tuplet numerator
  above 20) does end in such a rejection.
\<close>

theorem rejected_expression_no_mutation:
  "(patternSizeLCDClicked lib ready ok size_input s = Some (msgs, s')
      \<and> (\<exists>m \<in> set msgs. is_rejection m) \<longrightarrow> s' = s)
   \<and> (tupletLCDClicked lib ok tuplet_input s = Some (msgs, s')
      \<and> (\<exists>m \<in> set msgs. is_rejection m) \<longrightarrow> s' = s)
   \<and> (length_expression_rejected lib s size_entry \<and> pattern_size_LCD s \<noteq> size_entry \<longrightarrow>
      (\<exists>m. patternSizeLCDClicked lib True True size_entry s = Some ([m], s)
         \<and> is_rejection m))
   \<and> (tuplet_expression_rejected lib tuplet_entry \<and> tuplet_loop_defined lib tuplet_entry
      \<and> m_pTupletLCD s \<noteq> tuplet_entry \<longrightarrow>
      (\<exists>m. tupletLCDClicked lib True tuplet_entry s = Some ([m], s) \<and> is_rejection m))"
  using patternSizeLCDClicked_rejected [of lib ready ok size_input s msgs s']
    tupletLCDClicked_rejected [of lib ok tuplet_input s msgs s']
    patternSizeLCDClicked_rejects [of lib s size_entry]
    tupletLCDClicked_rejects [of lib tuplet_entry s]
  by blast

theorem rejected_expression_no_mutation_witness:
  "length_expression_rejected decimal_qt initial_panel ''17/4''
   \<and> pattern_size_LCD initial_panel \<noteq> ''17/4''
   \<and> patternSizeLCDClicked decimal_qt True True ''17/4'' initial_panel
       = Some ([PatternSizeTooBig], initial_panel)
   \<and> tuplet_expression_rejected decimal_qt ''25''
   \<and> tuplet_loop_defined decimal_qt ''25''
   \<and> m_pTupletLCD initial_panel \<noteq> ''25''
   \<and> tupletLCDClicked decimal_qt True ''25'' initial_panel
       = Some ([TupletNumeratorTooBig], initial_panel)"
proof -
  have size_eval: "map_option fst (patternSizeLCDClicked decimal_qt True True ''17/4'' initial_panel)
      = Some [PatternSizeTooBig]"
    by (simp add: patternSizeLCDClicked_def patternSizeEntered_def initial_panel_size_LCD
        decimal_toDouble_eval decimal_toInt_eval fround_eval MAX_NOTES_def)
  have tuplet_eval: "map_option fst (tupletLCDClicked decimal_qt True ''25'' initial_panel)
      = Some [TupletNumeratorTooBig]"
    by (simp add: tupletLCDClicked_def tupletEntered_cases initial_panel_LCD
        decimal_toInt_eval standardDenominator.simps)
  note inst = rejected_expression_no_mutation [of decimal_qt True True "''17/4''"
      initial_panel "[PatternSizeTooBig]" initial_panel "''25''" "''17/4''" "''25''"]
  from inst size_17_4_rejected initial_panel_size_LCD obtain m where
    "patternSizeLCDClicked decimal_qt True True ''17/4'' initial_panel
       = Some ([m], initial_panel)"
    by auto
  with size_eval have size_result:
    "patternSizeLCDClicked decimal_qt True True ''17/4'' initial_panel
       = Some ([PatternSizeTooBig], initial_panel)"
    by simp
  from inst tuplet_25_rejected initial_panel_LCD obtain m' where
    "tupletLCDClicked decimal_qt True ''25'' initial_panel = Some ([m'], initial_panel)"
    by auto
  with tuplet_eval have tuplet_result:
    "tupletLCDClicked decimal_qt True ''25'' initial_panel
       = Some ([TupletNumeratorTooBig], initial_panel)"
    by simp
  show ?thesis
    using size_17_4_rejected tuplet_25_rejected size_result tuplet_result
    by (simp add: initial_panel_size_LCD initial_panel_LCD)
qed

section \<open>Properties of the floating-point operations\<close>

subsection \<open>Powers of two and the binary logarithm\<close>

lemma pow2_powi: "pow2 e = 2 powi e"
  by (simp add: pow2_def power_int_def inverse_eq_divide power_one_over)

lemma pow2_pos [simp]: "0 < pow2 e"
  by (simp add: pow2_powi)

lemma pow2_add: "pow2 (a + b) = pow2 a * pow2 b"
  by (simp add: pow2_powi power_int_add)

lemma pow2_diff: "pow2 (a - b) = pow2 a / pow2 b"
  by (simp add: pow2_powi power_int_diff)

lemma pow2_mono: "a \<le> b \<Longrightarrow> pow2 a \<le> pow2 b"
  by (simp add: pow2_powi power_int_increasing)

lemma pow2_strict_mono: "a < b \<Longrightarrow> pow2 a < pow2 b"
  by (simp add: pow2_powi power_int_strict_increasing)

lemma pow2_less_cancel: "pow2 a < pow2 b \<Longrightarrow> a < b"
  using pow2_mono [of b a] by (cases "a < b") auto

lemma pow2_of_nat: "pow2 (int n) = 2 ^ n"
  by (simp add: pow2_def)

lemma pow2_nonneg_int: "0 \<le> e \<Longrightarrow> pow2 e = of_int (2 ^ nat e)"
  by (simp add: pow2_def)

lemma bit_length_bounds:
  "0 < n \<Longrightarrow> 2 ^ (bit_length n - 1) \<le> n \<and> n < 2 ^ bit_length n"
proof (induction n rule: bit_length.induct)
  case (1 n)
  show ?case
  proof (cases "n div 2 = 0")
    case True
    with 1(2) have "n = 1" by (simp add: div_eq_0_iff)
    then show ?thesis
      by (simp add: bit_length.simps)
  next
    case False
    then have pos: "0 < n div 2" by simp
    with 1 have ih: "2 ^ (bit_length (n div 2) - 1) \<le> n div 2"
      "n div 2 < 2 ^ bit_length (n div 2)"
      by simp_all
    have len: "bit_length n = Suc (bit_length (n div 2))"
      using 1(2) by (subst bit_length.simps) simp
    have "0 < bit_length (n div 2)"
      using pos by (subst bit_length.simps) simp
    then have "(2::nat) ^ (bit_length n - 1) = 2 * 2 ^ (bit_length (n div 2) - 1)"
      by (cases "bit_length (n div 2)") (simp_all add: len)
    moreover have "2 * (n div 2) \<le> n" "n < 2 * (n div 2) + 2"
      by linarith+
    ultimately show ?thesis
      using ih by (simp add: len) linarith
  qed
qed

lemma bit_length_pos: "0 < n \<Longrightarrow> 0 < bit_length n"
  by (subst bit_length.simps) simp

lemma bit_length_bounds_rat:
  assumes "0 < n"
  shows "(2::rat) ^ (bit_length n - 1) \<le> of_nat n" "(of_nat n :: rat) + 1 \<le> 2 ^ bit_length n"
proof -
  from bit_length_bounds [OF assms]
  have a: "2 ^ (bit_length n - 1) \<le> n" and b: "Suc n \<le> 2 ^ bit_length n"
    by simp_all
  from a have "(of_nat (2 ^ (bit_length n - 1)) :: rat) \<le> of_nat n"
    by (rule of_nat_mono)
  then show "(2::rat) ^ (bit_length n - 1) \<le> of_nat n" by simp
  from b have "(of_nat (Suc n) :: rat) \<le> of_nat (2 ^ bit_length n)"
    by (rule of_nat_mono)
  then show "(of_nat n :: rat) + 1 \<le> 2 ^ bit_length n" by simp
qed

lemma floor_nat_bounds:
  assumes "1 \<le> (x::rat)"
  shows "0 < nat \<lfloor>x\<rfloor>" "of_nat (nat \<lfloor>x\<rfloor>) \<le> x" "x < of_nat (nat \<lfloor>x\<rfloor>) + 1"
proof -
  have f: "1 \<le> \<lfloor>x\<rfloor>" using assms by (simp add: le_floor_iff)
  then show "0 < nat \<lfloor>x\<rfloor>" by simp
  have "(of_nat (nat \<lfloor>x\<rfloor>) :: rat) = of_int \<lfloor>x\<rfloor>"
    using f by simp
  moreover have "of_int \<lfloor>x\<rfloor> \<le> x" "x < of_int \<lfloor>x\<rfloor> + 1"
    by linarith+
  ultimately show "of_nat (nat \<lfloor>x\<rfloor>) \<le> x" "x < of_nat (nat \<lfloor>x\<rfloor>) + 1"
    by simp_all
qed

lemma ilog2_bounds_ge1:
  assumes "1 \<le> x"
  shows "pow2 (ilog2 x) \<le> x \<and> x < pow2 (ilog2 x + 1)"
proof -
  define n where "n = nat \<lfloor>x\<rfloor>"
  have n: "0 < n" "of_nat n \<le> x" "x < of_nat n + 1"
    using floor_nat_bounds [OF assms] by (simp_all add: n_def)
  have len: "0 < bit_length n" using n(1) by (rule bit_length_pos)
  have e: "ilog2 x = int (bit_length n - 1)"
    using assms len by (simp add: ilog2_def n_def of_nat_diff)
  have e1: "ilog2 x + 1 = int (bit_length n)"
    using len by (simp add: e)
  have "pow2 (ilog2 x) \<le> of_nat n"
    using bit_length_bounds_rat(1) [OF n(1)] by (simp add: e pow2_of_nat)
  moreover have "of_nat n + 1 \<le> pow2 (ilog2 x + 1)"
    using bit_length_bounds_rat(2) [OF n(1)] by (simp only: e1 pow2_of_nat)
  ultimately show ?thesis
    using n by linarith
qed

lemma ilog2_bounds_lt1:
  assumes "0 < x" "x < 1"
  shows "pow2 (ilog2 x) \<le> x \<and> x < pow2 (ilog2 x + 1)"
proof -
  define n where "n = nat \<lfloor>1 / x\<rfloor>"
  define k where "k = bit_length n"
  have "1 \<le> 1 / x"
    using assms by simp
  then have n: "0 < n" "of_nat n \<le> 1 / x" "1 / x < of_nat n + 1"
    using floor_nat_bounds [of "1 / x"] by (simp_all add: n_def)
  have k: "0 < k" using bit_length_pos [OF n(1)] by (simp add: k_def)
  have b: "(2::rat) ^ (k - 1) \<le> of_nat n" "(of_nat n :: rat) + 1 \<le> 2 ^ k"
    using bit_length_bounds_rat [OF n(1)] by (simp_all add: k_def)
  have p1: "pow2 (- int k) = 1 / 2 ^ k"
    using k by (simp add: pow2_def)
  have p2: "pow2 (1 - int k) = 1 / 2 ^ (k - 1)"
    using k by (cases k) (simp_all add: pow2_def)
  have p3: "pow2 (int k - 1) = 2 ^ (k - 1)"
    using k by (cases k) (simp_all add: pow2_def)
  have lo: "pow2 (- int k) < x"
  proof -
    have "1 / x < 2 ^ k" using n(3) b(2) by linarith
    then have "1 < x * 2 ^ k" using assms(1) by (simp add: field_simps)
    then show ?thesis unfolding p1 by (simp add: field_simps)
  qed
  have hi: "x * 2 ^ (k - 1) \<le> 1"
  proof -
    have "2 ^ (k - 1) \<le> 1 / x" using n(2) b(1) by linarith
    then show ?thesis using assms(1) by (simp add: field_simps)
  qed
  have val: "ilog2 x = (if x * 2 ^ (k - 1) = 1 then 1 - int k else - int k)"
    using assms(2) p3 by (simp add: ilog2_def n_def k_def Let_def)
  show ?thesis
  proof (cases "x * 2 ^ (k - 1) = 1")
    case True
    then have x: "x = pow2 (1 - int k)"
      unfolding p2 by (simp add: field_simps)
    have "pow2 (1 - int k) < pow2 (1 - int k + 1)"
      by (rule pow2_strict_mono) simp
    with x have "pow2 (1 - int k) \<le> x" "x < pow2 (1 - int k + 1)"
      by simp_all
    moreover have "ilog2 x = 1 - int k"
      using val True by simp
    ultimately show ?thesis
      by (simp only:)
  next
    case False
    with hi have "x * 2 ^ (k - 1) < 1" by simp
    then have "x < pow2 (1 - int k)"
      unfolding p2 by (simp add: field_simps)
    moreover have "- int k + 1 = 1 - int k" by simp
    moreover have "ilog2 x = - int k"
      using val False by simp
    ultimately show ?thesis
      using lo by (simp only:) simp
  qed
qed

lemma ilog2_bounds:
  assumes "0 < x"
  shows "pow2 (ilog2 x) \<le> x \<and> x < pow2 (ilog2 x + 1)"
  using assms ilog2_bounds_ge1 [of x] ilog2_bounds_lt1 [of x] by (cases "1 \<le> x") simp_all

lemma ilog2_le: "0 < x \<Longrightarrow> x < pow2 (k + 1) \<Longrightarrow> ilog2 x \<le> k"
  using ilog2_bounds [of x] pow2_less_cancel [of "ilog2 x" "k + 1"] by simp

lemma ilog2_ge:
  assumes "pow2 k \<le> x"
  shows "k \<le> ilog2 x"
proof -
  have "0 < x" using assms pow2_pos [of k] by linarith
  with assms ilog2_bounds [of x] have "pow2 k < pow2 (ilog2 x + 1)" by linarith
  then have "k < ilog2 x + 1" by (rule pow2_less_cancel)
  then show ?thesis by simp
qed

subsection \<open>Rounding: bounds and exact values\<close>

lemma round_half_even_floor: "\<lfloor>t\<rfloor> \<le> round_half_even t \<and> round_half_even t \<le> \<lfloor>t\<rfloor> + 1"
  by (simp add: round_half_even_def Let_def)

lemma round_half_even_of_int [simp]: "round_half_even (of_int N) = N"
  by (simp add: round_half_even_def)

lemma round_half_even_ge:
  assumes "of_int N \<le> t"
  shows "N \<le> round_half_even t"
proof -
  from assms have "N \<le> \<lfloor>t\<rfloor>" by (simp add: le_floor_iff)
  with round_half_even_floor [of t] show ?thesis by linarith
qed

lemma round_half_even_le:
  assumes "t \<le> of_int N"
  shows "round_half_even t \<le> N"
proof (cases "t = of_int N")
  case True
  then show ?thesis by simp
next
  case False
  with assms have "t < of_int N" by simp
  then have "\<lfloor>t\<rfloor> < N" by (simp add: floor_less_iff)
  with round_half_even_floor [of t] show ?thesis by linarith
qed

lemma pow2_nonneg [simp]: "0 \<le> pow2 e"
  using pow2_pos [of e] by linarith

lemma pow2_le_cancel: "pow2 a \<le> pow2 b \<Longrightarrow> a \<le> b"
  using pow2_strict_mono [of b a] by (cases "a \<le> b") auto

lemma pow2_int: "0 \<le> e \<Longrightarrow> pow2 e = of_int (2 ^ nat e)"
  by (simp add: pow2_def)

lemma quantum_pos:
  assumes "0 < x"
  shows "quantum f x = max (ilog2 x) (emin f) - (int (prec f) - 1)"
  using assms by (simp add: quantum_def)

lemma fround_pos:
  assumes "0 < x"
  shows "fround f x =
    (let y = of_int (round_half_even (x / pow2 (quantum f x))) * pow2 (quantum f x)
     in if pow2 (emax f + 1) \<le> \<bar>y\<bar> then (if 0 < y then PlusInf else MinusInf) else Finite y)"
  using assms by (simp add: fround_def Let_def)

lemma fround_lower:
  assumes p: "0 < prec f" and lo: "pow2 a \<le> x" and grid: "emin f - (int (prec f) - 1) \<le> a"
  shows "fround f x = PlusInf \<or> (\<exists>y. fround f x = Finite y \<and> pow2 a \<le> y)"
proof -
  have x: "0 < x" using lo pow2_pos [of a] by linarith
  define e where "e = ilog2 x"
  define q where "q = quantum f x"
  define y where "y = of_int (round_half_even (x / pow2 q)) * pow2 q"
  have ae: "a \<le> e" unfolding e_def using lo by (rule ilog2_ge)
  have qe: "q \<le> e"
    using p grid ae by (simp add: q_def quantum_pos [OF x] e_def)
  have "pow2 e \<le> x" using ilog2_bounds [OF x] by (simp add: e_def)
  then have "pow2 e / pow2 q \<le> x / pow2 q"
    by (intro divide_right_mono) (simp_all add: less_imp_le)
  then have "pow2 (e - q) \<le> x / pow2 q"
    by (simp add: pow2_diff)
  then have "of_int (2 ^ nat (e - q)) \<le> x / pow2 q"
    using qe by (simp add: pow2_int)
  then have "2 ^ nat (e - q) \<le> round_half_even (x / pow2 q)"
    by (rule round_half_even_ge)
  then have "(of_int (2 ^ nat (e - q)) :: rat) \<le> of_int (round_half_even (x / pow2 q))"
    by (simp only: of_int_le_iff)
  then have "pow2 (e - q) * pow2 q \<le> y"
    using qe by (simp add: y_def pow2_int mult_right_mono)
  then have "pow2 e \<le> y"
    by (simp flip: pow2_add)
  with pow2_mono [OF ae] have ya: "pow2 a \<le> y" by linarith
  then have "0 < y" using pow2_pos [of a] by linarith
  then show ?thesis
    using ya by (simp add: fround_pos [OF x] Let_def y_def [symmetric] q_def [symmetric])
qed

lemma fround_upper:
  assumes p: "0 < prec f" and x0: "0 \<le> x" and hi: "x \<le> pow2 b"
    and grid: "emin f - (int (prec f) - 1) \<le> b" and range: "b \<le> emax f"
  shows "\<exists>y. fround f x = Finite y \<and> 0 \<le> y \<and> y \<le> pow2 b"
proof (cases "x = 0")
  case True
  then show ?thesis by (simp add: fround_def less_imp_le)
next
  case False
  with x0 have x: "0 < x" by simp
  define e where "e = ilog2 x"
  define q where "q = quantum f x"
  define y where "y = of_int (round_half_even (x / pow2 q)) * pow2 q"
  have "pow2 e \<le> x" using ilog2_bounds [OF x] by (simp add: e_def)
  with hi have "pow2 e \<le> pow2 b" by linarith
  then have eb: "e \<le> b" by (rule pow2_le_cancel)
  have qb: "q \<le> b"
    using p grid eb by (simp add: q_def quantum_pos [OF x] e_def)
  have "x / pow2 q \<le> pow2 b / pow2 q"
    using hi by (intro divide_right_mono) (simp_all add: less_imp_le)
  then have "x / pow2 q \<le> pow2 (b - q)"
    by (simp add: pow2_diff)
  then have "x / pow2 q \<le> of_int (2 ^ nat (b - q))"
    using qb by (simp add: pow2_int)
  then have "round_half_even (x / pow2 q) \<le> 2 ^ nat (b - q)"
    by (rule round_half_even_le)
  then have "(of_int (round_half_even (x / pow2 q)) :: rat) \<le> of_int (2 ^ nat (b - q))"
    by (simp only: of_int_le_iff)
  then have "y \<le> pow2 (b - q) * pow2 q"
    using qb by (simp add: y_def pow2_int mult_right_mono)
  then have yb: "y \<le> pow2 b"
    by (simp flip: pow2_add)
  have "of_int 0 \<le> x / pow2 q" using x by (simp add: less_imp_le)
  then have "0 \<le> round_half_even (x / pow2 q)"
    by (rule round_half_even_ge)
  then have y0: "0 \<le> y" by (simp add: y_def mult_nonneg_nonneg)
  have "pow2 b < pow2 (emax f + 1)"
    using range by (intro pow2_strict_mono) simp
  with yb y0 have "\<not> pow2 (emax f + 1) \<le> \<bar>y\<bar>" by simp
  then show ?thesis
    using yb y0 by (simp add: fround_pos [OF x] Let_def y_def [symmetric] q_def [symmetric])
qed

lemma fround_between:
  assumes "0 < prec f" "pow2 a \<le> x" "x \<le> pow2 b"
    "emin f - (int (prec f) - 1) \<le> a" "b \<le> emax f"
  shows "\<exists>y. fround f x = Finite y \<and> pow2 a \<le> y \<and> y \<le> pow2 b"
proof -
  have "0 \<le> x" using assms(2) pow2_pos [of a] by linarith
  moreover have "a \<le> b"
    using assms(2,3) by (intro pow2_le_cancel) linarith
  ultimately obtain y where "fround f x = Finite y" "y \<le> pow2 b"
    using fround_upper [of f x b] assms by auto
  with fround_lower [of f a x] assms show ?thesis by auto
qed

lemma pow2_neq_0 [simp]: "pow2 e \<noteq> 0"
  using pow2_pos [of e] by linarith

lemma fround_exact:
  assumes p: "0 < prec f" and x: "x = of_int m * pow2 j" and m: "\<bar>m\<bar> < 2 ^ prec f"
    and grid: "emin f - (int (prec f) - 1) \<le> j" and range: "\<bar>x\<bar> < pow2 (emax f + 1)"
  shows "fround f x = Finite x"
proof (cases "x = 0")
  case True
  then show ?thesis by (simp add: fround_def)
next
  case False
  then have ax: "0 < \<bar>x\<bar>" by simp
  define q where "q = quantum f x"
  have "\<bar>x\<bar> = of_int \<bar>m\<bar> * pow2 j"
    by (simp add: x abs_mult)
  also have "\<dots> < of_int (2 ^ prec f) * pow2 j"
    using m by (intro mult_strict_right_mono) (simp_all only: of_int_less_iff pow2_pos)
  also have "\<dots> = pow2 (int (prec f) + j)"
    by (simp add: pow2_add pow2_of_nat)
  finally have "\<bar>x\<bar> < pow2 ((int (prec f) + j - 1) + 1)" by simp
  with ax have "ilog2 \<bar>x\<bar> \<le> int (prec f) + j - 1"
    by (rule ilog2_le)
  with grid have qj: "q \<le> j"
    by (simp add: q_def quantum_def)
  have "x / pow2 q = of_int m * pow2 (j - q)"
    by (simp add: x pow2_diff)
  also have "\<dots> = of_int (m * 2 ^ nat (j - q))"
    using qj by (simp add: pow2_int)
  finally have t: "x / pow2 q = of_int (m * 2 ^ nat (j - q))" .
  have "of_int (round_half_even (x / pow2 q)) * pow2 q = x / pow2 q * pow2 q"
    unfolding t by (simp only: round_half_even_of_int)
  also have "\<dots> = x"
    by simp
  finally have y: "of_int (round_half_even (x / pow2 q)) * pow2 q = x" .
  show ?thesis
    using False range by (simp add: fround_def Let_def q_def [symmetric] y)
qed

lemma of_int_fp_binary64:
  assumes "\<bar>i\<bar> < 2 ^ 53"
  shows "of_int_fp binary64 i = Finite (of_int i)"
proof -
  have "\<bar>of_int i :: rat\<bar> < of_int (2 ^ 53)"
    using assms by (simp only: of_int_abs [symmetric] of_int_less_iff)
  then have "\<bar>of_int i :: rat\<bar> < pow2 (emax binary64 + 1)"
    by (simp add: binary64_def pow2_def)
  then show ?thesis
    unfolding of_int_fp_def
    using assms by (intro fround_exact [where m = i and j = 0]) (simp_all add: binary64_def pow2_def)
qed

lemma of_int_fp_binary32:
  assumes "\<bar>i\<bar> < 2 ^ 24"
  shows "of_int_fp binary32 i = Finite (of_int i)"
proof -
  have "\<bar>of_int i :: rat\<bar> < of_int (2 ^ 24)"
    using assms by (simp only: of_int_abs [symmetric] of_int_less_iff)
  then have "\<bar>of_int i :: rat\<bar> < pow2 (emax binary32 + 1)"
    by (simp add: binary32_def pow2_def)
  then show ?thesis
    unfolding of_int_fp_def
    using assms by (intro fround_exact [where m = i and j = 0]) (simp_all add: binary32_def pow2_def)
qed

lemma fround_int_binary64:
  assumes "\<bar>i\<bar> < 2 ^ 53"
  shows "fround binary64 (of_int i) = Finite (of_int i)"
  using of_int_fp_binary64 [OF assms] by (simp add: of_int_fp_def)

lemma fround_int_binary32:
  assumes "\<bar>i\<bar> < 2 ^ 24"
  shows "fround binary32 (of_int i) = Finite (of_int i)"
  using of_int_fp_binary32 [OF assms] by (simp add: of_int_fp_def)

subsection \<open>Rounding: the error\<close>





section \<open>The granularity\<close>

lemma to_unsigned_product:
  assumes "0 < n" "0 < r" "n * r < 2 ^ 32"
  shows "to_unsigned (to_unsigned n * r) = n * r"
proof -
  have "n * 1 \<le> n * r" using assms(1,2) by (intro mult_left_mono) simp_all
  with assms(3) have "n < 2 ^ 32" by simp
  with assms(1) have "to_unsigned n = n" by (simp add: to_unsigned_id)
  moreover have "0 \<le> n * r" using assms(1,2) by simp
  ultimately show ?thesis using assms(3) by (simp add: to_unsigned_id)
qed

lemma granularity_of_exact_operands:
  assumes "0 < r" "0 < n" "0 < d" "192 * d < 2 ^ 24" "n * r < 2 ^ 24"
  shows "granularity_of r n d = fround binary32 (of_int (192 * d) / of_int (n * r))"
proof -
  have u: "to_unsigned (to_unsigned n * r) = n * r"
    using assms by (intro to_unsigned_product) simp_all
  have nr: "0 < n * r" using assms(1,2) by simp
  have c1: "of_int_fp binary32 MAX_NOTES = Finite 192"
    using of_int_fp_binary32 [of 192] by (simp add: MAX_NOTES_def)
  have c2: "of_int_fp binary32 d = Finite (of_int d)"
    using assms(3,4) by (intro of_int_fp_binary32) simp
  have c3: "of_int_fp binary32 (n * r) = Finite (of_int (n * r))"
    using assms(5) nr by (intro of_int_fp_binary32) simp
  have c4: "fround binary32 (192 * of_int d) = Finite (of_int (192 * d))"
    using fround_int_binary32 [of "192 * d"] assms(3,4) by simp
  have "(of_int (n * r) :: rat) \<noteq> 0" using assms(1,2) by simp
  then show ?thesis
    unfolding granularity_of_def u c1 c2 c3 by (simp add: c4)
qed

lemma granularity_of_positive:
  assumes "0 < r" "0 < n" "0 < d" "d < 2 ^ 31" "n * r < 2 ^ 32"
  shows "\<exists>g. granularity_of r n d = Finite g \<and> 0 < g"
proof -
  have u: "to_unsigned (to_unsigned n * r) = n * r"
    using assms by (intro to_unsigned_product) simp_all
  have nr: "1 \<le> n * r" using assms(1,2) by (simp add: int_one_le_iff_zero_less)
  have c1: "of_int_fp binary32 MAX_NOTES = Finite 192"
    using of_int_fp_binary32 [of 192] by (simp add: MAX_NOTES_def)
  have "\<exists>y. fround binary32 (of_int d) = Finite y \<and> pow2 0 \<le> y \<and> y \<le> pow2 31"
    using assms(3,4) by (intro fround_between) (simp_all add: binary32_def pow2_def)
  then obtain y1 where y1: "of_int_fp binary32 d = Finite y1" "1 \<le> y1" "y1 \<le> 2 ^ 31"
    by (auto simp: of_int_fp_def pow2_def)
  have "\<exists>y. fround binary32 (192 * y1) = Finite y \<and> pow2 7 \<le> y \<and> y \<le> pow2 39"
    using y1 by (intro fround_between) (simp_all add: binary32_def pow2_def)
  then obtain y2 where y2: "fround binary32 (192 * y1) = Finite y2" "2 ^ 7 \<le> y2" "y2 \<le> 2 ^ 39"
    by (auto simp: pow2_def)
  have "(of_int 1 :: rat) \<le> of_int (n * r)" "(of_int (n * r) :: rat) \<le> of_int (2 ^ 32)"
    using nr assms(5) by (simp_all only: of_int_le_iff)
  then have nr': "(1 :: rat) \<le> of_int (n * r)" "(of_int (n * r) :: rat) \<le> 2 ^ 32"
    by simp_all
  then have "\<exists>y. fround binary32 (of_int (n * r)) = Finite y \<and> pow2 0 \<le> y \<and> y \<le> pow2 32"
    by (intro fround_between) (simp_all add: binary32_def pow2_def)
  then obtain y3 where y3: "of_int_fp binary32 (n * r) = Finite y3" "1 \<le> y3" "y3 \<le> 2 ^ 32"
    by (auto simp: of_int_fp_def pow2_def)
  have q_lo: "pow2 (- 25) \<le> y2 / y3"
  proof -
    have "2 ^ 7 / 2 ^ 32 \<le> y2 / y3"
      using y2(2) y3(2,3) by (intro frac_le) simp_all
    then show ?thesis by (simp add: pow2_def)
  qed
  have q_hi: "y2 / y3 \<le> pow2 39"
  proof -
    have "y2 / y3 \<le> 2 ^ 39 / 1"
      using y2(2,3) y3(2) by (intro frac_le) simp_all
    then show ?thesis by (simp add: pow2_def)
  qed
  have "\<exists>g. fround binary32 (y2 / y3) = Finite g \<and> pow2 (- 25) \<le> g \<and> g \<le> pow2 39"
    using q_lo q_hi by (intro fround_between) (simp_all add: binary32_def)
  then obtain g where g: "fround binary32 (y2 / y3) = Finite g" "pow2 (- 25) \<le> g"
    by blast
  have "0 < g" using g(2) pow2_pos [of "- 25"] by linarith
  moreover have "y3 \<noteq> 0" using y3(2) by simp
  ultimately show ?thesis
    unfolding granularity_of_def u c1 y1 y3 by (simp add: y2 g)
qed

lemma granularity_of_16_off:
  "granularity_of 16 1 1 = Finite 12" "granularity_of 16 4 4 = Finite 12"
  by (simp_all add: granularity_of_def to_unsigned_def MAX_NOTES_def fround_eval)

lemma granularity_of_wraps: "granularity_of 65536 65536 1 = PlusInf"
  by (simp add: granularity_of_def to_unsigned_def MAX_NOTES_def fround_eval signed_inf_def)

lemma granularity_of_16_5_4: "granularity_of 16 5 4 = Finite (5033165 / 524288)"
  by (simp add: granularity_of_def to_unsigned_def MAX_NOTES_def fround_eval)


lemma granularity_of_integer_quotient:
  assumes "0 < r" "0 < n" "0 < d" "192 * d < 2 ^ 24" "n * r < 2 ^ 24" "n * r dvd 192 * d"
  shows "granularity_of r n d = Finite (of_int (192 * d div (n * r)))"
proof -
  have nr: "0 < n * r" using assms(1,2) by simp
  have "0 \<le> 192 * d div (n * r)"
    using assms(3) nr by (simp add: pos_imp_zdiv_nonneg_iff)
  moreover have "192 * d div (n * r) \<le> 192 * d div 1"
    using assms(3) nr by (intro zdiv_mono2) simp_all
  ultimately have k: "\<bar>192 * d div (n * r)\<bar> < 2 ^ 24"
    using assms(4) by simp
  have "(of_int (192 * d) :: rat) / of_int (n * r) = of_int (192 * d div (n * r))"
    using assms(6) by (simp only: of_int_div)
  then show ?thesis
    using granularity_of_exact_operands [OF assms(1-5)] fround_int_binary32 [OF k] by simp
qed

text \<open>
  Claim C2, as amended. For every grid with a resolution \<open>r > 0\<close>, a tuplet numerator
  \<open>num > 0\<close> and a tuplet denominator \<open>den > 0\<close> whose product \<open>num * r\<close> is below
  \<open>2^32\<close> (the product is computed in 32-bit unsigned arithmetic), \<open>granularity()\<close>
  returns a finite, strictly positive \<open>float\<close>. When \<open>192 * den\<close> and \<open>num * r\<close> are
  below \<open>2^24\<close>, as for every grid that the panel can set, it is the \<open>float\<close> nearest to
  the exact quotient \<open>192 * den / (num * r)\<close>, and the quotient itself when that is an
  integer. With the resolution 16 and the tuplet off (1:1 or 4:4) it is exactly 12.
\<close>

theorem granularity_formula:
  "(0 < m_nResolution e \<and> 0 < m_nTupletNumerator e \<and> 0 < m_nTupletDenominator e
      \<and> m_nTupletDenominator e < 2 ^ 31
      \<and> m_nTupletNumerator e * m_nResolution e < 2 ^ 32 \<longrightarrow>
      (\<exists>g. granularity e = Finite g \<and> 0 < g))
   \<and> (0 < m_nResolution e \<and> 0 < m_nTupletNumerator e \<and> 0 < m_nTupletDenominator e
      \<and> 192 * m_nTupletDenominator e < 2 ^ 24
      \<and> m_nTupletNumerator e * m_nResolution e < 2 ^ 24 \<longrightarrow>
      granularity e
        = fround binary32 (of_int (192 * m_nTupletDenominator e)
            / of_int (m_nTupletNumerator e * m_nResolution e))
      \<and> (m_nTupletNumerator e * m_nResolution e dvd 192 * m_nTupletDenominator e \<longrightarrow>
           granularity e
             = Finite (of_int (192 * m_nTupletDenominator e
                 div (m_nTupletNumerator e * m_nResolution e)))))
   \<and> (m_nResolution e = 16
      \<and> (m_nTupletNumerator e = 1 \<and> m_nTupletDenominator e = 1
         \<or> m_nTupletNumerator e = 4 \<and> m_nTupletDenominator e = 4) \<longrightarrow>
      granularity e = Finite 12)"
  using granularity_of_positive [of "m_nResolution e" "m_nTupletNumerator e"
      "m_nTupletDenominator e"]
    granularity_of_exact_operands [of "m_nResolution e" "m_nTupletNumerator e"
      "m_nTupletDenominator e"]
    granularity_of_integer_quotient [of "m_nResolution e" "m_nTupletNumerator e"
      "m_nTupletDenominator e"]
    granularity_of_16_off
  by (auto simp: granularity_def)

text \<open>
  The grid of the example editor, resolution 16 with the ratio 5:4, has the granularity
  \<open>5033165 / 2^19\<close>, the \<open>float\<close> nearest to 9.6; with the ratio 3:2 the granularity
  is 8.
\<close>

theorem granularity_formula_witness:
  "granularity example_editor = Finite (5033165 / 524288)
   \<and> fround binary32 (of_int (192 * 4) / of_int (5 * 16)) = Finite (5033165 / 524288)
   \<and> (0::rat) < 5033165 / 524288
   \<and> granularity (setTupletRatio 3 2 example_editor) = Finite 8
   \<and> granularity (setTupletRatio 4 4 example_editor) = Finite 12
   \<and> granularity (setTupletRatio 1 1 example_editor) = Finite 12"
proof -
  have e: "m_nResolution example_editor = 16" "m_nTupletNumerator example_editor = 5"
    "m_nTupletDenominator example_editor = 4"
    by (simp_all add: example_editor_def)
  have t: "m_nResolution (setTupletRatio a b example_editor) = 16"
    "m_nTupletNumerator (setTupletRatio a b example_editor) = a"
    "m_nTupletDenominator (setTupletRatio a b example_editor) = b" for a b
    by (simp_all add: example_editor_def setTupletRatio_def)
  have v: "fround binary32 (48 / 5) = Finite (5033165 / 524288)"
    "fround binary32 8 = Finite 8" "fround binary32 12 = Finite 12"
    by (simp_all add: fround_eval)
  show ?thesis
    using granularity_formula [of example_editor]
      granularity_formula [of "setTupletRatio 3 2 example_editor"]
      granularity_formula [of "setTupletRatio 4 4 example_editor"]
      granularity_formula [of "setTupletRatio 1 1 example_editor"]
    by (simp add: e t v)
qed

text \<open>
  The claim as it was stated fails where the unsigned product wraps around: with the
  numerator 65536 and the resolution 65536 the divisor is 0 and the result is infinite,
  not \<open>192 / 2^32\<close>.
\<close>

theorem granularity_wraps_counterexample:
  "granularity \<lparr>m_nResolution = 65536, m_nTupletNumerator = 65536, m_nTupletDenominator = 1\<rparr>
     = PlusInf"
  by (simp add: granularity_def granularity_of_wraps)

section \<open>The length of the pattern\<close>

lemma c_div_nonneg:
  assumes "0 \<le> a" "0 < b" "a \<le> INT_MAX"
  shows "c_div a b = Some (a div b)"
proof -
  have eq: "sgn a * sgn b * (\<bar>a\<bar> div \<bar>b\<bar>) = a div b"
    using assms(1,2) by (cases "a = 0") simp_all
  have "0 \<le> a div b"
    using assms(1,2) by (simp add: pos_imp_zdiv_nonneg_iff)
  moreover have "a div b \<le> a div 1"
    using assms(1,2) by (intro zdiv_mono2) simp_all
  ultimately have "c_int (a div b) = Some (a div b)"
    using assms(3) by (intro c_int_Some) (simp_all add: INT_MIN_def)
  moreover have "c_div a b = c_int (a div b)"
    using assms(2) unfolding c_div_def eq by simp
  ultimately show ?thesis by simp
qed

lemma c_mod_nonneg:
  assumes "0 \<le> a" "0 < b" "a \<le> INT_MAX"
  shows "c_mod a b = Some (a mod b)"
  using c_div_nonneg [OF assms] by (simp add: c_mod_def minus_div_mult_eq_mod)

lemma to_int_c_round:
  assumes "0 \<le> y" "y \<le> 2 ^ 30"
  shows "to_int (c_round (Finite y)) = Some \<lfloor>y + 1 / 2\<rfloor>"
    and "0 \<le> \<lfloor>y + 1 / 2\<rfloor>" and "\<lfloor>y + 1 / 2\<rfloor> \<le> 2 ^ 30"
proof -
  show lo: "0 \<le> \<lfloor>y + 1 / 2\<rfloor>" using assms(1) by (simp add: le_floor_iff)
  have "y + 1 / 2 < of_int (2 ^ 30 + 1)" using assms(2) by simp
  then have "\<lfloor>y + 1 / 2\<rfloor> < 2 ^ 30 + 1" by (simp only: floor_less_iff)
  then show hi: "\<lfloor>y + 1 / 2\<rfloor> \<le> 2 ^ 30" by simp
  show "to_int (c_round (Finite y)) = Some \<lfloor>y + 1 / 2\<rfloor>"
    using assms(1) lo hi by (simp add: c_int_def INT_MIN_def INT_MAX_def)
qed

lemma fround64_upper:
  assumes "0 \<le> x" "x \<le> 2 ^ k" "k \<le> 1023"
  shows "\<exists>y. fround binary64 x = Finite y \<and> 0 \<le> y \<and> y \<le> 2 ^ k"
  using fround_upper [of binary64 x "int k"] assms by (simp add: binary64_def pow2_of_nat)

lemma fround64_lower:
  assumes "2 ^ k \<le> x"
  shows "fround binary64 x = PlusInf \<or> (\<exists>y. fround binary64 x = Finite y \<and> 2 ^ k \<le> y)"
  using fround_lower [of binary64 "int k" x] assms by (simp add: binary64_def pow2_of_nat)

lemma not_too_big:
  assumes "0 < n" "0 < d"
    "\<not> fless (Finite 4) (fdiv binary64 (Finite n) (Finite (of_int d)))"
  shows "n < 8 * of_int d"
proof (rule ccontr)
  assume "\<not> n < 8 * of_int d"
  then have "2 ^ 3 \<le> n / of_int d"
    using assms(2) by (simp add: field_simps)
  from fround64_lower [OF this] assms(2,3) show False
    by auto
qed

lemma of_int_fp_MAX_NOTES:
  "of_int_fp binary64 MAX_NOTES = Finite 192" "of_int_fp binary32 MAX_NOTES = Finite 192"
  using of_int_fp_binary64 [of 192] of_int_fp_binary32 [of 192] by (simp_all add: MAX_NOTES_def)

lemma updatePatternSizeLCD_text:
  assumes "0 \<le> pattern_length (m_pPattern s)" "0 < pattern_denominator (m_pPattern s)"
    "pattern_length (m_pPattern s) * pattern_denominator (m_pPattern s) \<le> INT_MAX"
  shows "updatePatternSizeLCD lib s =
    Some (s\<lparr>pattern_size_LCD :=
               size_text lib (pattern_length (m_pPattern s)) (pattern_denominator (m_pPattern s)),
            m_pDenominatorWarning := \<not> pattern_denominator (m_pPattern s) dvd 192\<rparr>)"
proof -
  define L where "L = pattern_length (m_pPattern s)"
  define D where "D = pattern_denominator (m_pPattern s)"
  have p: "0 \<le> L * D" using assms(1,2) by (simp add: L_def D_def)
  have c: "c_int (L * D) = Some (L * D)"
    using p assms(3) by (intro c_int_Some) (simp_all add: L_def D_def INT_MIN_def)
  have m: "c_mod (L * D) MAX_NOTES = Some (L * D mod 192)"
    using c_mod_nonneg [of "L * D" 192] p assms(3) by (simp add: L_def D_def MAX_NOTES_def)
  have q: "c_div (L * D) MAX_NOTES = Some (L * D div 192)"
    using c_div_nonneg [of "L * D" 192] p assms(3) by (simp add: L_def D_def MAX_NOTES_def)
  have w: "c_mod MAX_NOTES D = Some (192 mod D)"
    using c_mod_nonneg [of 192 D] assms(2) by (simp add: D_def MAX_NOTES_def INT_MAX_def)
  show ?thesis
    unfolding updatePatternSizeLCD_def L_def [symmetric] D_def [symmetric]
    by (simp add: c m q w size_text_def of_int_fp_MAX_NOTES mod_eq_0_iff_dvd)
qed

lemma floor_half_le:
  assumes "y \<le> of_int K"
  shows "\<lfloor>y + 1 / 2\<rfloor> \<le> K"
proof -
  have "y + 1 / 2 < of_int (K + 1)" using assms by simp
  then have "\<lfloor>y + 1 / 2\<rfloor> < K + 1" by (simp only: floor_less_iff)
  then show ?thesis by simp
qed

lemma patternLengthChanged_stored:
  assumes "0 \<le> L" "0 < d" "L * d \<le> INT_MAX"
  shows "patternLengthChanged lib
      (s\<lparr>m_pPattern := (m_pPattern s)\<lparr>pattern_length := L, pattern_denominator := d\<rparr>\<rparr>)
    = Some (sizeAccepted lib L d s)"
  using assms
  by (simp add: patternLengthChanged_def updatePatternSizeLCD_text sizeAccepted_def)

lemma patternSizeEntered_accepted:
  assumes n: "0 < n" and d: "0 < d" "d \<le> 192"
    and ok: "\<not> fless (Finite 4) (fdiv binary64 (Finite n) (of_int_fp binary64 d))"
  shows "\<exists>L (a::int) b. canonical_length (Finite n) d = Some L \<and> 0 \<le> L \<and> L \<le> 2 ^ 19
    \<and> patternSizeEntered lib True (Finite n) d s
      = Some ((if d dvd 192 then [] else [LengthNotSupported d])
              @ (if a \<noteq> b then [PatternSizeApproximated] else []),
              sizeAccepted lib L d s)"
proof -
  have cd: "of_int_fp binary64 d = Finite (of_int d)"
    using d by (intro of_int_fp_binary64) simp
  have c1000: "of_int_fp binary64 1000 = Finite 1000"
    using of_int_fp_binary64 [of 1000] by simp
  have d0: "(of_int d :: rat) \<noteq> 0" "(0 :: rat) < of_int d" "(of_int d :: rat) \<le> 192"
    "(1 :: rat) \<le> of_int d"
    using d by simp_all
  from ok have "n < 8 * of_int d"
    unfolding cd by (intro not_too_big [OF n d(1)])
  with d0(3) have n_hi: "n < 1536" by linarith
  have "0 \<le> 192 / (of_int d :: rat)" "192 / (of_int d :: rat) \<le> 2 ^ 8"
    using d0 by (simp_all add: field_simps)
  then obtain y1 where y1: "fround binary64 (192 / of_int d) = Finite y1" "0 \<le> y1" "y1 \<le> 2 ^ 8"
    using fround64_upper [of "192 / of_int d" 8] by auto
  have "y1 * n \<le> 2 ^ 8 * 1536"
    using y1(2,3) n n_hi by (intro mult_mono) simp_all
  then have "0 \<le> y1 * n" "y1 * n \<le> 2 ^ 19"
    using y1(2) n by simp_all
  then obtain y2 where y2: "fround binary64 (y1 * n) = Finite y2" "0 \<le> y2" "y2 \<le> 2 ^ 19"
    using fround64_upper [of "y1 * n" 19] by auto
  define L where "L = \<lfloor>y2 + 1 / 2\<rfloor>"
  have L: "to_int (c_round (Finite y2)) = Some L" "0 \<le> L"
    using to_int_c_round [of y2] y2(2,3) by (simp_all add: L_def)
  have L_hi: "L \<le> 2 ^ 19"
    unfolding L_def using y2(3) by (intro floor_half_le) simp
  have cl: "canonical_length (Finite n) d = Some L"
    using d0(1) by (simp add: canonical_length_def of_int_fp_MAX_NOTES cd y1 y2 L
        del: c_round.simps to_int.simps)
  have "L * d \<le> 2 ^ 19 * 192"
    using L(2) L_hi d by (intro mult_mono) simp_all
  then have Ld: "L * d \<le> INT_MAX" by (simp add: INT_MAX_def)
  have upd: "patternLengthChanged lib
      (s\<lparr>m_pPattern := (m_pPattern s)\<lparr>pattern_length := L, pattern_denominator := d\<rparr>\<rparr>)
    = Some (sizeAccepted lib L d s)"
    using L(2) d(1) Ld by (rule patternLengthChanged_stored)
  have cL: "of_int_fp binary64 L = Finite (of_int L)"
    using L(2) L_hi by (intro of_int_fp_binary64) simp
  have Lr: "(0 :: rat) \<le> of_int L" "(of_int L :: rat) \<le> 2 ^ 19"
    using L(2) L_hi by (simp_all only: of_int_0_le_iff) (metis of_int_le_iff of_int_numeral of_int_power)
  then have "0 \<le> (of_int L :: rat) / 192" "(of_int L :: rat) / 192 \<le> 2 ^ 12"
    by simp_all
  then obtain y3 where y3: "fround binary64 (of_int L / 192) = Finite y3" "0 \<le> y3" "y3 \<le> 2 ^ 12"
    using fround64_upper [of "of_int L / 192" 12] by auto
  have "y3 * of_int d \<le> 2 ^ 12 * 192"
    using y3(2,3) d0 by (intro mult_mono) simp_all
  then have "0 \<le> y3 * of_int d" "y3 * of_int d \<le> 2 ^ 20"
    using y3(2) d0 by simp_all
  then obtain y4 where y4: "fround binary64 (y3 * of_int d) = Finite y4" "0 \<le> y4" "y4 \<le> 2 ^ 20"
    using fround64_upper [of "y3 * of_int d" 20] by auto
  have "0 \<le> y4 * 1000" "y4 * 1000 \<le> 2 ^ 30"
    using y4(2,3) by simp_all
  then obtain y5 where y5: "fround binary64 (y4 * 1000) = Finite y5" "0 \<le> y5" "y5 \<le> 2 ^ 30"
    using fround64_upper [of "y4 * 1000" 30] by auto
  have a: "to_int (c_round (Finite y5)) = Some \<lfloor>y5 + 1 / 2\<rfloor>"
    using y5(2,3) by (rule to_int_c_round)
  have "0 \<le> n * 1000" "n * 1000 \<le> 2 ^ 21"
    using n n_hi by simp_all
  then obtain y6 where y6: "fround binary64 (n * 1000) = Finite y6" "0 \<le> y6" "y6 \<le> 2 ^ 21"
    using fround64_upper [of "n * 1000" 21] by auto
  have b: "to_int (c_round (Finite y6)) = Some \<lfloor>y6 + 1 / 2\<rfloor>"
    using y6(2,3) by (intro to_int_c_round) simp_all
  have w: "c_mod MAX_NOTES d = Some (192 mod d)"
    using c_mod_nonneg [of 192 d] d(1) by (simp add: MAX_NOTES_def INT_MAX_def)
  have "patternSizeEntered lib True (Finite n) d s
      = Some ((if d dvd 192 then [] else [LengthNotSupported d])
              @ (if \<lfloor>y5 + 1 / 2\<rfloor> \<noteq> \<lfloor>y6 + 1 / 2\<rfloor> then [PatternSizeApproximated] else []),
              sizeAccepted lib L d s)"
    using n ok d0(1)
    by (simp add: patternSizeEntered_def w of_int_fp_MAX_NOTES cd c1000 y1 y2 L upd cL y3 y4 y5
        a y6 b mod_eq_0_iff_dvd del: c_round.simps to_int.simps)
  with cl L(2) L_hi show ?thesis by blast
qed

lemma patternSizeLCDClicked_entered:
  assumes "length_expression lib s qtmp = Some (v, d)" "pattern_size_LCD s \<noteq> qtmp"
    "0 < d" "d \<le> 192"
  shows "patternSizeLCDClicked lib True True qtmp s = patternSizeEntered lib True v d s"
  using assms
  by (auto simp: length_expression_def patternSizeLCDClicked_def Let_def toDouble_ok_def
      toInt_ok_def MAX_NOTES_def split: if_splits option.splits)

lemma canonical_length_exact:
  assumes "0 < d" "d dvd 192" "0 \<le> k" "k \<le> 2 ^ 20"
  shows "canonical_length (Finite (of_int k)) d = Some (192 div d * k)"
proof -
  define q where "q = 192 div d"
  have "d \<le> 192" using assms(1,2) by (simp add: zdvd_imp_le)
  then have cd: "of_int_fp binary64 d = Finite (of_int d)"
    using assms(1) by (intro of_int_fp_binary64) simp
  have q: "0 \<le> q" "q \<le> 192"
    using assms(1) zdiv_mono2 [of 192 1 d] by (simp_all add: q_def pos_imp_zdiv_nonneg_iff)
  have "(192 :: rat) / of_int d = of_int q"
    using assms(2) of_int_div [of d 192, where ?'a = rat] by (simp add: q_def)
  then have y1: "fround binary64 (192 / of_int d) = Finite (of_int q)"
    using fround_int_binary64 [of q] q by simp
  have "q * k \<le> 192 * 2 ^ 20"
    using q assms(3,4) by (intro mult_mono) simp_all
  moreover have "0 \<le> q * k" using q(1) assms(3) by simp
  ultimately have qk: "\<bar>q * k\<bar> < 2 ^ 53" "0 \<le> q * k" "q * k \<le> INT_MAX"
    by (simp_all add: INT_MAX_def)
  have y2: "fround binary64 (of_int q * of_int k) = Finite (of_int (q * k))"
    using fround_int_binary64 [OF qk(1)] by simp
  have r: "\<lfloor>(of_int (q * k) :: rat) + 1 / 2\<rfloor> = q * k"
    by (rule floor_unique) simp_all
  have "q * k \<le> 2 ^ 30"
    using \<open>q * k \<le> 192 * 2 ^ 20\<close> by simp
  then have "(of_int (q * k) :: rat) \<le> of_int (2 ^ 30)"
    by (simp only: of_int_le_iff)
  then have h2: "(of_int (q * k) :: rat) \<le> 2 ^ 30"
    by simp
  have h1: "(0 :: rat) \<le> of_int (q * k)"
    using qk(2) by (simp only: of_int_0_le_iff)
  have t: "to_int (c_round (Finite (of_int (q * k)))) = Some (q * k)"
    using to_int_c_round(1) [OF h1 h2] unfolding r .
  have "(of_int d :: rat) \<noteq> 0" using assms(1) by simp
  then show ?thesis
    by (simp add: canonical_length_def of_int_fp_MAX_NOTES cd y1 y2 [unfolded of_int_mult]
        t [unfolded of_int_mult] del: c_round.simps to_int.simps flip: q_def)
qed

lemma initial_panel_pattern:
  "m_pPattern initial_panel = \<lparr>pattern_length = 192, pattern_denominator = 4\<rparr>"
  by (simp add: initial_panel_def)

lemmas handler_eval = patternSizeLCDClicked_def patternSizeEntered_def patternLengthChanged_def
  updatePatternSizeLCD_def initial_panel_size_LCD initial_panel_pattern
  decimal_toDouble_eval decimal_toInt_eval fround_eval MAX_NOTES_def c_mod_def c_div_def


lemma size_1_5:
  "patternSizeLCDClicked decimal_qt True True ''1/5'' initial_panel
     = Some ([LengthNotSupported 5, PatternSizeApproximated], initial_panel
         \<lparr>m_pPattern := \<lparr>pattern_length = 38, pattern_denominator = 5\<rparr>,
           pattern_size_LCD := ''0.990/5'', m_pDenominatorWarning := True\<rparr>)"
  by (simp add: handler_eval arg_int_def digits.simps pad3_def)

lemma length_expression_3_8:
  "length_expression decimal_qt initial_panel ''3/8'' = Some (Finite 3, 8)"
  by (simp add: length_expression_def decimal_toDouble_eval decimal_toInt_eval fround_eval)

lemma length_expression_1_5:
  "length_expression decimal_qt initial_panel ''1/5'' = Some (Finite 1, 5)"
  by (simp add: length_expression_def decimal_toDouble_eval decimal_toInt_eval fround_eval)

lemma digit_cases: "k < 10 \<Longrightarrow> k \<in> {0, 1, 2, 3, 4, 5, 6, 7, 8, 9 :: nat}"
  by auto

lemma digits_chars: "set (digits n) \<subseteq> set ''0123456789''"
proof (induction n rule: digits.induct)
  case (1 n)
  show ?case
  proof (cases "n < 10")
    case True
    then have "n \<in> {0, 1, 2, 3, 4, 5, 6, 7, 8, 9}" by (rule digit_cases)
    then show ?thesis
      by (subst digits.simps) auto
  next
    case False
    have "n mod 10 \<in> {0, 1, 2, 3, 4, 5, 6, 7, 8, 9}"
      by (rule digit_cases) simp
    then have "''0123456789'' ! (n mod 10) \<in> set ''0123456789''"
      by auto
    with False 1 show ?thesis
      by (subst digits.simps) simp
  qed
qed

lemma length_digits: "0 < j \<Longrightarrow> n < 10 ^ j \<Longrightarrow> length (digits n) \<le> j"
proof (induction n arbitrary: j rule: digits.induct)
  case (1 n)
  show ?case
  proof (cases "n < 10")
    case True
    with 1(2) show ?thesis by (subst digits.simps) simp
  next
    case False
    with 1(3) have "j \<noteq> 1" by auto
    with 1(2) have "1 < j" by linarith
    then obtain i where j: "j = Suc i" "0 < i" by (cases j) auto
    with 1(3) have "n < 10 ^ i * 10" by simp
    then have "n div 10 < 10 ^ i"
      by (rule less_mult_imp_div_less)
    with 1(1) [OF False j(2)] have "length (digits (n div 10)) \<le> i" .
    with False j show ?thesis by (subst digits.simps) simp
  qed
qed

lemma decimal_f3_Finite:
  "decimal_f3 (Finite x)
     = ((if x < 0 \<and> 0 < nat \<lfloor>\<bar>x\<bar> * 1000 + 1 / 2\<rfloor> then [CHR ''-''] else [])
        @ digits (nat \<lfloor>\<bar>x\<bar> * 1000 + 1 / 2\<rfloor> div 1000))
       @ CHR ''.'' # pad3 (digits (nat \<lfloor>\<bar>x\<bar> * 1000 + 1 / 2\<rfloor> mod 1000))"
  unfolding decimal_f3.simps Let_def by (simp only: append_assoc append_Cons append_Nil)

lemma length_digits_1000: "length (digits (m mod 1000)) \<le> 3"
  using length_digits [of 3 "m mod 1000"] by simp

lemma replicate_zero_chars: "set (replicate k CHR ''0'') \<subseteq> set ''0123456789''"
  by (auto simp: set_replicate_conv_if)

lemma pad3_chars: "set (pad3 (digits n)) \<subseteq> set ''0123456789''"
proof -
  have "set (pad3 (digits n))
      = set (replicate (3 - length (digits n)) CHR ''0'') \<union> set (digits n)"
    by (simp only: pad3_def set_append)
  then show ?thesis
    using replicate_zero_chars [of "3 - length (digits n)"] digits_chars [of n] by blast
qed

lemma sign_digits_chars:
  assumes "sign = [CHR ''-''] \<or> sign = []"
  shows "set (sign @ digits k) \<subseteq> insert CHR ''-'' (set ''0123456789'')"
proof -
  have "set sign \<subseteq> {CHR ''-''}" using assms by auto
  then show ?thesis
    using digits_chars [of k] unfolding set_append by blast
qed

lemma three_fraction_digits_decimal_f3: "three_fraction_digits (decimal_f3 (Finite x))"
proof -
  define m where "m = nat \<lfloor>\<bar>x\<bar> * 1000 + 1 / 2\<rfloor>"
  define sign where "sign = (if x < 0 \<and> 0 < m then [CHR ''-''] else [])"
  define pre where "pre = sign @ digits (m div 1000)"
  define fr where "fr = pad3 (digits (m mod 1000))"
  have f: "decimal_f3 (Finite x) = pre @ CHR ''.'' # fr"
    unfolding pre_def fr_def sign_def m_def by (rule decimal_f3_Finite)
  have "sign = [CHR ''-''] \<or> sign = []"
    by (simp add: sign_def)
  then have "set pre \<subseteq> insert CHR ''-'' (set ''0123456789'')"
    unfolding pre_def by (rule sign_digits_chars)
  moreover have "CHR ''.'' \<notin> insert CHR ''-'' (set ''0123456789'')"
    by simp
  ultimately have "c \<noteq> CHR ''.''" if "c \<in> set pre" for c
    using that by blast
  then have "dropWhile (\<lambda>c. c \<noteq> CHR ''.'') (pre @ CHR ''.'' # fr)
      = dropWhile (\<lambda>c. c \<noteq> CHR ''.'') (CHR ''.'' # fr)"
    by (rule dropWhile_append2)
  then have d: "drop 1 (dropWhile (\<lambda>c. c \<noteq> CHR ''.'') (decimal_f3 (Finite x))) = fr"
    unfolding f by simp
  have len: "length fr = 3"
    using length_digits_1000 [of m] by (simp add: fr_def pad3_def)
  have "set fr \<subseteq> set ''0123456789''"
    unfolding fr_def by (rule pad3_chars)
  then have "list_all (\<lambda>c. c \<in> set ''0123456789'') fr"
    unfolding list_all_iff by blast
  with len show ?thesis
    unfolding three_fraction_digits_def d Let_def by blast
qed

lemma sizeAccepted_fields:
  "pattern_length (m_pPattern (sizeAccepted lib L d s)) = L"
  "pattern_denominator (m_pPattern (sizeAccepted lib L d s)) = d"
  "pattern_size_LCD (sizeAccepted lib L d s) = size_text lib L d"
  "m_pDenominatorWarning (sizeAccepted lib L d s) = (\<not> d dvd 192)"
  by (simp_all add: sizeAccepted_def)

lemma patternSizeLCDClicked_accepted:
  assumes "length_expression lib s qtmp = Some (Finite n, d)" "0 < n" "0 < d" "d \<le> 192"
    "\<not> fless (Finite 4) (fdiv binary64 (Finite n) (of_int_fp binary64 d))"
    "pattern_size_LCD s \<noteq> qtmp"
  shows "\<exists>L (a::int) b. canonical_length (Finite n) d = Some L \<and> 0 \<le> L \<and> L \<le> 2 ^ 19
    \<and> patternSizeLCDClicked lib True True qtmp s
      = Some ((if d dvd 192 then [] else [LengthNotSupported d])
              @ (if a \<noteq> b then [PatternSizeApproximated] else []),
              sizeAccepted lib L d s)"
  using patternSizeEntered_accepted [OF assms(2-5), of lib s]
    patternSizeLCDClicked_entered [OF assms(1,6,3,4)]
  by simp












lemma fits_3_8: "\<not> fless (Finite 4) (fdiv binary64 (Finite 3) (of_int_fp binary64 8))"
  by (simp add: fround_eval)

lemma fits_1_5: "\<not> fless (Finite 4) (fdiv binary64 (Finite 1) (of_int_fp binary64 5))"
  by (simp add: fround_eval)






text \<open>
  Claim C6. When the denominator \<open>d\<close> of an otherwise valid length expression does not
  divide 192, the expression is accepted all the same: the message that lengths in
  \<open>1/d\<close> notes are not supported is shown, no rejecting message is, the length and the
  denominator of the pattern are stored and the denominator warning is switched on. In
  particular "1/5" is accepted with this message and stores the length 38.
\<close>

theorem unsupported_denominator_accepted:
  "length_expression lib s qtmp = Some (Finite n, d) \<and> 0 < n \<and> 0 < d \<and> d \<le> 192
     \<and> \<not> d dvd 192
     \<and> \<not> fless (Finite 4) (fdiv binary64 (Finite n) (of_int_fp binary64 d))
     \<and> pattern_size_LCD s \<noteq> qtmp \<longrightarrow>
     (\<exists>L msgs s'. patternSizeLCDClicked lib True True qtmp s = Some (msgs, s')
        \<and> LengthNotSupported d \<in> set msgs
        \<and> \<not> (\<exists>m \<in> set msgs. is_rejection m)
        \<and> canonical_length (Finite n) d = Some L
        \<and> pattern_length (m_pPattern s') = L
        \<and> pattern_denominator (m_pPattern s') = d
        \<and> m_pDenominatorWarning s')"
proof
  assume a: "length_expression lib s qtmp = Some (Finite n, d) \<and> 0 < n \<and> 0 < d \<and> d \<le> 192
     \<and> \<not> d dvd 192
     \<and> \<not> fless (Finite 4) (fdiv binary64 (Finite n) (of_int_fp binary64 d))
     \<and> pattern_size_LCD s \<noteq> qtmp"
  then obtain L and x y :: int where L: "canonical_length (Finite n) d = Some L"
    and r: "patternSizeLCDClicked lib True True qtmp s
      = Some ((if d dvd 192 then [] else [LengthNotSupported d])
              @ (if x \<noteq> y then [PatternSizeApproximated] else []),
              sizeAccepted lib L d s)"
    using patternSizeLCDClicked_accepted [of lib s qtmp n d] by blast
  define msgs where "msgs = [LengthNotSupported d]
      @ (if x \<noteq> y then [PatternSizeApproximated] else [])"
  have "patternSizeLCDClicked lib True True qtmp s = Some (msgs, sizeAccepted lib L d s)"
    using r a by (simp add: msgs_def)
  moreover have "LengthNotSupported d \<in> set msgs" "\<not> (\<exists>m \<in> set msgs. is_rejection m)"
    by (simp_all add: msgs_def)
  moreover have "m_pDenominatorWarning (sizeAccepted lib L d s)"
    using a by (simp add: sizeAccepted_fields)
  ultimately show "\<exists>L msgs s'. patternSizeLCDClicked lib True True qtmp s = Some (msgs, s')
        \<and> LengthNotSupported d \<in> set msgs
        \<and> \<not> (\<exists>m \<in> set msgs. is_rejection m)
        \<and> canonical_length (Finite n) d = Some L
        \<and> pattern_length (m_pPattern s') = L
        \<and> pattern_denominator (m_pPattern s') = d
        \<and> m_pDenominatorWarning s'"
    using L sizeAccepted_fields(1,2) by blast
qed

lemma canonical_length_1_5: "canonical_length (Finite 1) 5 = Some 38"
  by (simp add: canonical_length_def MAX_NOTES_def fround_eval c_int_def INT_MIN_def INT_MAX_def)

theorem unsupported_denominator_accepted_witness:
  "length_expression decimal_qt initial_panel ''1/5'' = Some (Finite 1, 5)
   \<and> \<not> (5::int) dvd 192
   \<and> \<not> fless (Finite 4) (fdiv binary64 (Finite 1) (of_int_fp binary64 5))
   \<and> pattern_size_LCD initial_panel \<noteq> ''1/5''
   \<and> patternSizeLCDClicked decimal_qt True True ''1/5'' initial_panel
       = Some ([LengthNotSupported 5, PatternSizeApproximated], initial_panel
           \<lparr>m_pPattern := \<lparr>pattern_length = 38, pattern_denominator = 5\<rparr>,
             pattern_size_LCD := ''0.990/5'', m_pDenominatorWarning := True\<rparr>)
   \<and> canonical_length (Finite 1) 5 = Some 38"
proof -
  note inst = unsupported_denominator_accepted [of decimal_qt initial_panel "''1/5''" 1 5]
  from inst length_expression_1_5 fits_1_5 initial_panel_size_LCD
  obtain L msgs s' where
    "patternSizeLCDClicked decimal_qt True True ''1/5'' initial_panel = Some (msgs, s')"
    "LengthNotSupported 5 \<in> set msgs" "canonical_length (Finite 1) 5 = Some L"
    by auto
  then show ?thesis
    using length_expression_1_5 fits_1_5 size_1_5 canonical_length_1_5
    by (simp add: initial_panel_size_LCD)
qed

section \<open>The display of the pattern size\<close>

lemma size_text_exact:
  assumes "0 < d" "d dvd 192"
  shows "size_text lib (192 div d * k) d = arg_int k @ [CHR ''/''] @ arg_int d"
proof -
  have "192 div d * d = 192"
    using assms(2) by simp
  then have eq: "192 div d * k * d = 192 * k"
    by (metis mult.assoc mult.commute)
  show ?thesis
    unfolding size_text_def eq by simp
qed

lemma pattern_size_round_trip:
  assumes "length_expression lib s qtmp = Some (Finite (of_int k), d)" "0 < k" "0 < d"
    "d dvd 192"
    "\<not> fless (Finite 4) (fdiv binary64 (Finite (of_int k)) (of_int_fp binary64 d))"
    "pattern_size_LCD s \<noteq> qtmp"
  shows "\<exists>msgs s'. patternSizeLCDClicked lib True True qtmp s = Some (msgs, s')
    \<and> pattern_length (m_pPattern s') = 192 div d * k
    \<and> pattern_denominator (m_pPattern s') = d
    \<and> pattern_size_LCD s' = arg_int k @ [CHR ''/''] @ arg_int d"
proof -
  have d192: "d \<le> 192" using assms(3,4) by (simp add: zdvd_imp_le)
  then have cd: "of_int_fp binary64 d = Finite (of_int d)"
    using assms(3) by (intro of_int_fp_binary64) simp
  have "(of_int k :: rat) < 8 * of_int d"
    using assms(2,3,5) unfolding cd by (intro not_too_big) simp_all
  then have "(of_int k :: rat) < of_int (8 * d)" by simp
  then have "k < 8 * d" by (simp only: of_int_less_iff)
  with d192 have k: "k \<le> 2 ^ 20" by simp
  have exact: "canonical_length (Finite (of_int k)) d = Some (192 div d * k)"
    using assms(2,3,4) k by (intro canonical_length_exact) simp_all
  have "(0 :: rat) < of_int k" using assms(2) by simp
  then obtain L msgs where "canonical_length (Finite (of_int k)) d = Some L"
    "patternSizeLCDClicked lib True True qtmp s = Some (msgs, sizeAccepted lib L d s)"
    using patternSizeLCDClicked_accepted [OF assms(1) _ assms(3) d192 assms(5,6)] by blast
  with exact have
    "patternSizeLCDClicked lib True True qtmp s
       = Some (msgs, sizeAccepted lib (192 div d * k) d s)"
    by simp
  then show ?thesis
    using size_text_exact [OF assms(3,4), of lib k] by (simp add: sizeAccepted_fields)
qed

text \<open>
  Claim C5. \<open>updatePatternSizeLCD\<close> renders a length and a denominator as the integer
  fraction \<open>(length * denominator / 192) / denominator\<close> when
  \<open>(length * denominator) % 192 == 0\<close>, and otherwise prints the numerator through
  \<open>QLocale::toString(x, 'f', 3)\<close>, which gives exactly three digits after the decimal
  point (shown for the decimal library). Hence the pair stored for an accepted integer
  numerator \<open>k\<close> over a denominator \<open>d\<close> that divides 192 is displayed as \<open>k/d\<close>;
  "3/8" is displayed as "3/8".
\<close>

theorem pattern_size_rendering:
  "(0 \<le> pattern_length (m_pPattern s) \<and> 0 < pattern_denominator (m_pPattern s)
      \<and> pattern_length (m_pPattern s) * pattern_denominator (m_pPattern s) \<le> INT_MAX \<longrightarrow>
      (\<exists>s'. updatePatternSizeLCD lib s = Some s'
         \<and> (pattern_length (m_pPattern s) * pattern_denominator (m_pPattern s) mod 192 = 0 \<longrightarrow>
              pattern_size_LCD s'
                = arg_int (pattern_length (m_pPattern s) * pattern_denominator (m_pPattern s)
                    div 192)
                  @ [CHR ''/''] @ arg_int (pattern_denominator (m_pPattern s)))
         \<and> (pattern_length (m_pPattern s) * pattern_denominator (m_pPattern s) mod 192 \<noteq> 0 \<longrightarrow>
              pattern_size_LCD s'
                = toString_f3 lib
                    (fdiv binary32
                       (of_int_fp binary32
                          (pattern_length (m_pPattern s) * pattern_denominator (m_pPattern s)))
                       (of_int_fp binary32 MAX_NOTES))
                  @ [CHR ''/''] @ arg_int (pattern_denominator (m_pPattern s)))))
   \<and> three_fraction_digits (decimal_f3 (Finite x))
   \<and> (length_expression lib s qtmp = Some (Finite (of_int k), d) \<and> 0 < k \<and> 0 < d
      \<and> d dvd 192
      \<and> \<not> fless (Finite 4) (fdiv binary64 (Finite (of_int k)) (of_int_fp binary64 d))
      \<and> pattern_size_LCD s \<noteq> qtmp \<longrightarrow>
      (\<exists>msgs s'. patternSizeLCDClicked lib True True qtmp s = Some (msgs, s')
         \<and> pattern_length (m_pPattern s') = 192 div d * k
         \<and> pattern_denominator (m_pPattern s') = d
         \<and> pattern_size_LCD s' = arg_int k @ [CHR ''/''] @ arg_int d))"
proof (intro conjI impI)
  assume a: "0 \<le> pattern_length (m_pPattern s) \<and> 0 < pattern_denominator (m_pPattern s)
      \<and> pattern_length (m_pPattern s) * pattern_denominator (m_pPattern s) \<le> INT_MAX"
  then have "updatePatternSizeLCD lib s =
    Some (s\<lparr>pattern_size_LCD :=
               size_text lib (pattern_length (m_pPattern s)) (pattern_denominator (m_pPattern s)),
            m_pDenominatorWarning := \<not> pattern_denominator (m_pPattern s) dvd 192\<rparr>)"
    by (intro updatePatternSizeLCD_text) simp_all
  then show "\<exists>s'. updatePatternSizeLCD lib s = Some s'
         \<and> (pattern_length (m_pPattern s) * pattern_denominator (m_pPattern s) mod 192 = 0 \<longrightarrow>
              pattern_size_LCD s'
                = arg_int (pattern_length (m_pPattern s) * pattern_denominator (m_pPattern s)
                    div 192)
                  @ [CHR ''/''] @ arg_int (pattern_denominator (m_pPattern s)))
         \<and> (pattern_length (m_pPattern s) * pattern_denominator (m_pPattern s) mod 192 \<noteq> 0 \<longrightarrow>
              pattern_size_LCD s'
                = toString_f3 lib
                    (fdiv binary32
                       (of_int_fp binary32
                          (pattern_length (m_pPattern s) * pattern_denominator (m_pPattern s)))
                       (of_int_fp binary32 MAX_NOTES))
                  @ [CHR ''/''] @ arg_int (pattern_denominator (m_pPattern s)))"
    by (simp add: size_text_def of_int_fp_MAX_NOTES mod_eq_0_iff_dvd)
next
  show "three_fraction_digits (decimal_f3 (Finite x))"
    by (rule three_fraction_digits_decimal_f3)
next
  assume "length_expression lib s qtmp = Some (Finite (of_int k), d) \<and> 0 < k \<and> 0 < d
      \<and> d dvd 192
      \<and> \<not> fless (Finite 4) (fdiv binary64 (Finite (of_int k)) (of_int_fp binary64 d))
      \<and> pattern_size_LCD s \<noteq> qtmp"
  then show "\<exists>msgs s'. patternSizeLCDClicked lib True True qtmp s = Some (msgs, s')
         \<and> pattern_length (m_pPattern s') = 192 div d * k
         \<and> pattern_denominator (m_pPattern s') = d
         \<and> pattern_size_LCD s' = arg_int k @ [CHR ''/''] @ arg_int d"
    using pattern_size_round_trip [of lib s qtmp k d] by blast
qed

lemma approximated_panel_pattern:
  "m_pPattern approximated_panel = \<lparr>pattern_length = 38, pattern_denominator = 5\<rparr>"
  by (simp add: approximated_panel_def)

lemma decimal_f3_190_192:
  "toString_f3 decimal_qt (fdiv binary32 (of_int_fp binary32 190) (of_int_fp binary32 192))
     = ''0.990''"
  by (simp add: decimal_qt_def fround_eval digits.simps pad3_def)

theorem pattern_size_rendering_witness:
  "pattern_size_LCD initial_panel \<noteq> ''3/8''
   \<and> length_expression decimal_qt initial_panel ''3/8'' = Some (Finite 3, 8)
   \<and> map_option (pattern_size_LCD \<circ> snd)
       (patternSizeLCDClicked decimal_qt True True ''3/8'' initial_panel) = Some ''3/8''
   \<and> map_option pattern_size_LCD (updatePatternSizeLCD decimal_qt initial_panel) = Some ''4/4''
   \<and> map_option pattern_size_LCD (updatePatternSizeLCD decimal_qt approximated_panel)
       = Some ''0.990/5''
   \<and> three_fraction_digits ''0.990''"
proof -
  have shown: "arg_int 3 = ''3''" "arg_int 8 = ''8''" "arg_int 4 = ''4''" "arg_int 5 = ''5''"
    by (simp_all add: arg_int_def digits.simps)
  note round_trip = pattern_size_rendering
    [of initial_panel decimal_qt 0 "''3/8''" 3 8, THEN conjunct2, THEN conjunct2]
  note exact = pattern_size_rendering
    [of initial_panel decimal_qt 0 "''3/8''" 3 8, THEN conjunct1]
  note decimal = pattern_size_rendering
    [of approximated_panel decimal_qt "95 / 96" "''3/8''" 3 8, THEN conjunct1]
  note digits3 = pattern_size_rendering
    [of approximated_panel decimal_qt "95 / 96" "''3/8''" 3 8, THEN conjunct2, THEN conjunct1]
  from round_trip length_expression_3_8 fits_3_8 initial_panel_size_LCD
  have a: "map_option (pattern_size_LCD \<circ> snd)
       (patternSizeLCDClicked decimal_qt True True ''3/8'' initial_panel) = Some ''3/8''"
    by (auto simp: shown)
  from exact have b:
    "map_option pattern_size_LCD (updatePatternSizeLCD decimal_qt initial_panel) = Some ''4/4''"
    by (auto simp: initial_panel_pattern INT_MAX_def shown)
  from decimal have c:
    "map_option pattern_size_LCD (updatePatternSizeLCD decimal_qt approximated_panel)
       = Some ''0.990/5''"
    by (auto simp: approximated_panel_pattern INT_MAX_def shown decimal_f3_190_192 MAX_NOTES_def)
  have "decimal_f3 (Finite (95 / 96)) = ''0.990''"
    by (simp add: digits.simps pad3_def)
  with digits3 have d: "three_fraction_digits ''0.990''"
    by simp
  show ?thesis
    using a b c d length_expression_3_8 by (simp add: initial_panel_size_LCD)
qed

section \<open>The cursor\<close>

lemma example_panel_granularity: "panel_granularity example_panel = Finite (5033165 / 524288)"
  by (simp add: panel_granularity_def example_panel_def granularity_of_16_5_4)

lemma edge_panel_fields:
  "panel_granularity edge_panel = Finite (5033165 / 524288)"
  "pattern_length (m_pPattern edge_panel) = 10"
  "m_nCursorIndexPosition edge_panel = 0"
  using example_panel_granularity
  by (simp_all add: edge_panel_def panel_granularity_def example_panel_def)

lemma clamp_panel_fields:
  "panel_granularity clamp_panel = Finite (5033165 / 524288)"
  "pattern_length (m_pPattern clamp_panel) = 19"
  using example_panel_granularity
  by (simp_all add: clamp_panel_def panel_granularity_def example_panel_def)

text \<open>
  Claim C3 does not hold of the program. \<open>moveCursorRight\<close> tests
  \<open>round(index + 1) * granularity() < length\<close>: the product is not rounded. With the
  granularity 9.6, a pattern of 10 ticks and the cursor at the index 0, the product is
  9.6, below 10, and the cursor moves to the index 1, although the tick position of the
  index 1 is \<open>round(9.6) = 10\<close>, which is not below the length: the index 0 was the last
  valid one.
\<close>

theorem moveCursorRight_past_the_length:
  "m_nCursorIndexPosition edge_panel = 0
   \<and> pattern_length (m_pPattern edge_panel) = 10
   \<and> getCursorPosition (edge_panel\<lparr>m_nCursorIndexPosition := 1\<rparr>) = Some 10
   \<and> map_option m_nCursorIndexPosition (moveCursorRight edge_panel) = Some 1"
proof -
  have g: "panel_granularity (edge_panel\<lparr>m_nCursorIndexPosition := 1\<rparr>)
      = Finite (5033165 / 524288)"
    using edge_panel_fields(1) by (simp add: panel_granularity_def)
  have "getCursorPosition (edge_panel\<lparr>m_nCursorIndexPosition := 1\<rparr>) = Some 10"
    unfolding getCursorPosition_def g
    by (simp add: fround_eval c_int_def INT_MIN_def INT_MAX_def)
  moreover have "map_option m_nCursorIndexPosition (moveCursorRight edge_panel) = Some 1"
    unfolding moveCursorRight_def edge_panel_fields
    by (simp add: fround_eval c_int_def INT_MIN_def INT_MAX_def)
  ultimately show ?thesis
    by (simp add: edge_panel_fields)
qed

lemma setCursorIndexPosition_clamped:
  assumes "0 \<le> g"
    "fle (of_int_fp binary64 (pattern_length (m_pPattern s))) (implied_tick_position g s)"
    "panel_granularity s = Finite gr" "1 / 32 \<le> gr"
    "0 \<le> pattern_length (m_pPattern s)" "pattern_length (m_pPattern s) \<le> 2 ^ 19"
  shows "\<exists>q. fdiv binary32 (Finite (of_int (pattern_length (m_pPattern s)))) (Finite gr) = Finite q
    \<and> 0 \<le> q
    \<and> setCursorIndexPosition g s = Some (s\<lparr>m_nCursorIndexPosition := \<lfloor>q\<rfloor>\<rparr>)"
proof -
  let ?L = "pattern_length (m_pPattern s)"
  have cL: "of_int_fp binary32 ?L = Finite (of_int ?L)"
    using assms(5,6) by (intro of_int_fp_binary32) simp
  have Lr: "(0 :: rat) \<le> of_int ?L" "(of_int ?L :: rat) \<le> of_int (2 ^ 19)"
    using assms(5,6) by (simp_all only: of_int_0_le_iff of_int_le_iff)
  have gr: "0 < gr" using assms(4) by simp
  have "of_int ?L / gr \<le> of_int (2 ^ 19) / (1 / 32)"
    using Lr assms(4) by (intro frac_le) simp_all
  then have hi: "of_int ?L / gr \<le> pow2 24"
    by (simp add: pow2_def)
  have lo: "0 \<le> of_int ?L / gr"
    using Lr(1) gr by simp
  obtain q where q: "fround binary32 (of_int ?L / gr) = Finite q" "0 \<le> q" "q \<le> pow2 24"
    using fround_upper [of binary32 "of_int ?L / gr" 24] lo hi by (auto simp: binary32_def)
  have "0 \<le> \<lfloor>q\<rfloor>" using q(2) by (simp add: le_floor_iff)
  moreover have "q < of_int (2 ^ 24 + 1)" using q(3) by (simp add: pow2_def)
  then have "\<lfloor>q\<rfloor> < 2 ^ 24 + 1" by (simp only: floor_less_iff)
  ultimately have t: "to_int (Finite q) = Some \<lfloor>q\<rfloor>"
    using q(2) by (simp add: c_int_def INT_MIN_def INT_MAX_def)
  have d: "fdiv binary32 (Finite (of_int ?L)) (Finite gr) = Finite q"
    using gr q(1) by simp
  have cond: "fle (of_int_fp binary64 ?L)
      (c_round (fmul binary32 (of_int_fp binary32 g) (Finite gr)))"
    using assms(2,3) by (simp add: implied_tick_position_def)
  have "setCursorIndexPosition g s = Some (s\<lparr>m_nCursorIndexPosition := \<lfloor>q\<rfloor>\<rparr>)"
    using assms(1) cond unfolding setCursorIndexPosition_def assms(3) cL d t
    by simp
  with d q(2) show ?thesis by blast
qed

text \<open>
  Claim C4, as amended. \<open>setCursorIndexPosition(g)\<close> stores 0 when \<open>g\<close> is negative. When
  \<open>g\<close> is not negative and the tick position that \<open>g\<close> implies reaches or exceeds the
  length of the pattern (\<open>>=\<close>), it stores the floor of the \<open>float\<close> quotient of the length
  by the granularity (for a length from 0 to \<open>2^19\<close> and a finite granularity of at
  least \<open>1/32\<close>, which covers every grid and length that the panel can set). Otherwise it
  stores \<open>g\<close>.
\<close>

theorem setCursorIndexPosition_clamps:
  "(nGridIndex < 0 \<longrightarrow>
      setCursorIndexPosition nGridIndex s = Some (s\<lparr>m_nCursorIndexPosition := 0\<rparr>))
   \<and> (0 \<le> nGridIndex
      \<and> fle (of_int_fp binary64 (pattern_length (m_pPattern s)))
            (implied_tick_position nGridIndex s)
      \<and> panel_granularity s = Finite gr \<and> 1 / 32 \<le> gr
      \<and> 0 \<le> pattern_length (m_pPattern s) \<and> pattern_length (m_pPattern s) \<le> 2 ^ 19 \<longrightarrow>
      (\<exists>q. fdiv binary32 (Finite (of_int (pattern_length (m_pPattern s)))) (Finite gr)
             = Finite q
         \<and> 0 \<le> q
         \<and> setCursorIndexPosition nGridIndex s = Some (s\<lparr>m_nCursorIndexPosition := \<lfloor>q\<rfloor>\<rparr>)))
   \<and> (0 \<le> nGridIndex
      \<and> \<not> fle (of_int_fp binary64 (pattern_length (m_pPattern s)))
              (implied_tick_position nGridIndex s) \<longrightarrow>
      setCursorIndexPosition nGridIndex s = Some (s\<lparr>m_nCursorIndexPosition := nGridIndex\<rparr>))"
proof (intro conjI impI)
  assume "nGridIndex < 0"
  then show "setCursorIndexPosition nGridIndex s = Some (s\<lparr>m_nCursorIndexPosition := 0\<rparr>)"
    by (simp add: setCursorIndexPosition_def)
next
  assume "0 \<le> nGridIndex
      \<and> fle (of_int_fp binary64 (pattern_length (m_pPattern s)))
            (implied_tick_position nGridIndex s)
      \<and> panel_granularity s = Finite gr \<and> 1 / 32 \<le> gr
      \<and> 0 \<le> pattern_length (m_pPattern s) \<and> pattern_length (m_pPattern s) \<le> 2 ^ 19"
  then show "\<exists>q. fdiv binary32 (Finite (of_int (pattern_length (m_pPattern s)))) (Finite gr)
             = Finite q
         \<and> 0 \<le> q
         \<and> setCursorIndexPosition nGridIndex s = Some (s\<lparr>m_nCursorIndexPosition := \<lfloor>q\<rfloor>\<rparr>)"
    using setCursorIndexPosition_clamped [of nGridIndex s gr] by blast
next
  assume "0 \<le> nGridIndex
      \<and> \<not> fle (of_int_fp binary64 (pattern_length (m_pPattern s)))
              (implied_tick_position nGridIndex s)"
  then show "setCursorIndexPosition nGridIndex s
      = Some (s\<lparr>m_nCursorIndexPosition := nGridIndex\<rparr>)"
    by (simp add: setCursorIndexPosition_def implied_tick_position_def)
qed

lemma initial_panel_granularity: "panel_granularity initial_panel = Finite 12"
  by (simp add: panel_granularity_def initial_panel_def granularity_of_16_off)

theorem setCursorIndexPosition_clamps_witness:
  "setCursorIndexPosition (- 3) initial_panel
     = Some (initial_panel\<lparr>m_nCursorIndexPosition := 0\<rparr>)
   \<and> implied_tick_position 20 initial_panel = Finite 240
   \<and> fdiv binary32 (Finite 192) (Finite 12) = Finite 16
   \<and> setCursorIndexPosition 20 initial_panel
     = Some (initial_panel\<lparr>m_nCursorIndexPosition := 16\<rparr>)
   \<and> implied_tick_position 5 initial_panel = Finite 60
   \<and> setCursorIndexPosition 5 initial_panel
     = Some (initial_panel\<lparr>m_nCursorIndexPosition := 5\<rparr>)"
proof -
  have t: "implied_tick_position 20 initial_panel = Finite 240"
    "implied_tick_position 5 initial_panel = Finite 60"
    unfolding implied_tick_position_def initial_panel_granularity
    by (simp_all add: fround_eval)
  have q: "fround binary32 16 = Finite 16"
    by (simp add: fround_eval)
  have c: "of_int_fp binary64 192 = Finite 192"
    by (simp add: fround_eval)
  show ?thesis
    using setCursorIndexPosition_clamps [of "- 3" initial_panel 12]
      setCursorIndexPosition_clamps [of 20 initial_panel 12]
      setCursorIndexPosition_clamps [of 5 initial_panel 12]
    by (auto simp: t q c initial_panel_granularity initial_panel_pattern)
qed

text \<open>
  The claim as it was stated clamps only a tick position that exceeds the length. With
  the granularity 9.6 and a pattern of 19 ticks, the index 2 implies the tick position
  \<open>round(19.2) = 19\<close>, which equals the length; the program stores
  \<open>floor(19 / 9.6) = 1\<close>, not 2.
\<close>

theorem setCursorIndexPosition_at_the_length_counterexample:
  "pattern_length (m_pPattern clamp_panel) = 19
   \<and> implied_tick_position 2 clamp_panel = Finite 19
   \<and> map_option m_nCursorIndexPosition (setCursorIndexPosition 2 clamp_panel) = Some 1"
proof -
  have "implied_tick_position 2 clamp_panel = Finite 19"
    unfolding implied_tick_position_def clamp_panel_fields
    by (simp add: fround_eval)
  moreover have
    "map_option m_nCursorIndexPosition (setCursorIndexPosition 2 clamp_panel) = Some 1"
    unfolding setCursorIndexPosition_def clamp_panel_fields
    by (simp add: fround_eval c_int_def INT_MIN_def INT_MAX_def)
  ultimately show ?thesis
    by (simp add: clamp_panel_fields)
qed

end
